theory Spec2Isabelle
  imports Main "HOL-Library.Sublist" "HOL-Library.Char_ord" "HOL-Library.List_Lexorder"
begin

section \<open>The RocksDB database plugin of osquery\<close>

text \<open>
  A shallow embedding of \<^verbatim>\<open>osquery/database/plugins/rocksdb.cpp\<close>: the log interceptor
  \<^verbatim>\<open>GlogRocksDBLogger::Logv\<close>, the lifecycle \<^verbatim>\<open>setUp\<close>, \<^verbatim>\<open>close\<close>, \<^verbatim>\<open>repairDB\<close>, the router
  \<^verbatim>\<open>getHandleForColumnFamily\<close> and the operations \<^verbatim>\<open>get\<close>, \<^verbatim>\<open>put\<close>, \<^verbatim>\<open>putBatch\<close>, \<^verbatim>\<open>remove\<close>,
  \<^verbatim>\<open>removeRange\<close> and \<^verbatim>\<open>scan\<close>. Keys, values, paths and messages are \<open>string\<close> (byte
  lists); \<open><\<close> and \<open>\<le>\<close> on them are the byte-wise lexicographic order of
  \<^verbatim>\<open>std::string\<close> and of the engine's default comparator.
\<close>

subsection \<open>The \<^verbatim>\<open>std::string\<close> and \<^verbatim>\<open>std::vector\<close> operations the plugin calls\<close>

text \<open>
  What C++ leaves undefined or answers with an exception is a value of \<open>fault\<close>:
  \<^verbatim>\<open>operator[]\<close> past the end of a vector, a call through a null pointer, and the
  \<^verbatim>\<open>std::out_of_range\<close> that \<^verbatim>\<open>substr\<close> throws.
\<close>

datatype fault = OutOfBounds | NullDeref | StdOutOfRange

text \<open>\<^verbatim>\<open>s.find(needle)\<close>: the first position where \<open>needle\<close> occurs, \<open>None\<close> for \<^verbatim>\<open>npos\<close>.\<close>

fun find_from :: "string \<Rightarrow> string \<Rightarrow> nat \<Rightarrow> nat option" where
  "find_from [] needle pos = (if needle = [] then Some pos else None)"
| "find_from (c # cs) needle pos =
     (if prefix needle (c # cs) then Some pos else find_from cs needle (Suc pos))"

definition str_find :: "string \<Rightarrow> string \<Rightarrow> nat option" where
  "str_find s needle = find_from s needle 0"

text \<open>\<^verbatim>\<open>s.find_last_of(":")\<close> for a one-character set: the last position of the character.\<close>

fun find_last_of :: "string \<Rightarrow> char \<Rightarrow> nat option" where
  "find_last_of [] ch = None"
| "find_last_of (c # cs) ch =
     (case find_last_of cs ch of
        Some i \<Rightarrow> Some (Suc i)
      | None \<Rightarrow> if c = ch then Some 0 else None)"

text \<open>\<^verbatim>\<open>s.substr(pos)\<close>: throws when \<open>pos\<close> is past the end.\<close>

definition substr :: "string \<Rightarrow> nat \<Rightarrow> fault + string" where
  "substr s pos = (if length s < pos then Inl StdOutOfRange else Inr (drop pos s))"

text \<open>
  \<^verbatim>\<open>std::find(v.begin(), v.end(), x) - v.begin()\<close>: the index of the first element equal
  to \<open>x\<close>, the size of the vector when there is none.
\<close>

fun std_find :: "'a list \<Rightarrow> 'a \<Rightarrow> nat" where
  "std_find [] x = 0"
| "std_find (y # ys) x = (if y = x then 0 else Suc (std_find ys x))"

subsection \<open>The embedded engine, at its interface\<close>

text \<open>
  The engine is RocksDB, an external library; the plugin sees it through
  \<^verbatim>\<open>DB::Open\<close>, \<^verbatim>\<open>Get\<close>, \<^verbatim>\<open>Write\<close>, \<^verbatim>\<open>Delete\<close>, \<^verbatim>\<open>DeleteRange\<close>, \<^verbatim>\<open>NewIterator\<close> and the status
  they return. Its operations are modelled by their contract, as sections 3 and 6 of
  the spec summarise it: an ordered key-value store per column family. A status has
  a code (0 OK, 1 NotFound, 2 Corruption, 5 IOError), a subcode and the text of
  \<^verbatim>\<open>ToString()\<close>.
\<close>

record rocks_status =
  rs_code :: nat
  rs_subcode :: nat
  rs_text :: string

definition rs_OK :: rocks_status where
  "rs_OK = \<lparr>rs_code = 0, rs_subcode = 0, rs_text = ''OK''\<rparr>"

definition rs_NotFound :: rocks_status where
  "rs_NotFound = \<lparr>rs_code = 1, rs_subcode = 0, rs_text = ''NotFound: ''\<rparr>"

definition rs_ok :: "rocks_status \<Rightarrow> bool" where
  "rs_ok st = (rs_code st = 0)"

definition IsCorruption :: "rocks_status \<Rightarrow> bool" where
  "IsCorruption st = (rs_code st = 2)"

definition IsIOError :: "rocks_status \<Rightarrow> bool" where
  "IsIOError st = (rs_code st = 5)"

text \<open>\<^verbatim>\<open>rocksdb::WriteOptions()\<close>: no sync, write-ahead log in use.\<close>

record write_options =
  sync :: bool
  disableWAL :: bool

definition WriteOptions :: write_options where
  "WriteOptions = \<lparr>sync = False, disableWAL = False\<rparr>"

text \<open>
  A column family handle names the column family it was opened for and its place in
  the open store. One column family holds its records in ascending key order, no key
  twice.
\<close>

datatype cf_handle = CFHandle (cf_id: nat) (cf_name: string)

type_synonym kvs = "(string \<times> string) list"

record rocks_db =
  db_path :: string
  families :: "(string \<times> kvs) list"

fun kv_put :: "string \<Rightarrow> string \<Rightarrow> kvs \<Rightarrow> kvs" where
  "kv_put k v [] = [(k, v)]"
| "kv_put k v ((k', v') # rest) =
     (if k < k' then (k, v) # (k', v') # rest
      else if k = k' then (k, v) # rest
      else (k', v') # kv_put k v rest)"

definition kv_delete :: "string \<Rightarrow> kvs \<Rightarrow> kvs" where
  "kv_delete k data = filter (\<lambda>p. fst p \<noteq> k) data"

text \<open>The range-delete primitive removes the keys of the half-open range from \<open>low\<close> to \<open>high\<close>.\<close>

definition in_range :: "string \<Rightarrow> string \<Rightarrow> string \<Rightarrow> bool" where
  "in_range low high k = (low \<le> k \<and> k < high)"

definition kv_delete_range :: "string \<Rightarrow> string \<Rightarrow> kvs \<Rightarrow> kvs" where
  "kv_delete_range low high data = filter (\<lambda>p. \<not> in_range low high (fst p)) data"

definition kv_keys :: "kvs \<Rightarrow> string list" where
  "kv_keys data = map fst data"

definition kv_wf :: "kvs \<Rightarrow> bool" where
  "kv_wf data = sorted_wrt (<) (kv_keys data)"

definition cf_data :: "rocks_db \<Rightarrow> cf_handle \<Rightarrow> kvs" where
  "cf_data d h =
     (if cf_id h < length (families d) then snd (families d ! cf_id h) else [])"

definition cf_update :: "cf_handle \<Rightarrow> (kvs \<Rightarrow> kvs) \<Rightarrow> rocks_db \<Rightarrow> rocks_db" where
  "cf_update h f d =
     (if cf_id h < length (families d)
      then d\<lparr>families := (families d)[cf_id h := (fst (families d ! cf_id h), f (snd (families d ! cf_id h)))]\<rparr>
      else d)"

text \<open>
  Each commit is given the status the engine answers it with (\<open>verdict\<close>); the engine
  applies the commit when that status is OK and leaves the store as it is otherwise.
  A write batch is applied as a whole or not at all.
\<close>

type_synonym write_batch = "(cf_handle \<times> string \<times> string) list"

fun batch_apply :: "write_batch \<Rightarrow> rocks_db \<Rightarrow> rocks_db" where
  "batch_apply [] d = d"
| "batch_apply ((h, k, v) # rest) d = batch_apply rest (cf_update h (kv_put k v) d)"

definition db_Write :: "rocks_status \<Rightarrow> write_batch \<Rightarrow> rocks_db \<Rightarrow> rocks_status \<times> rocks_db" where
  "db_Write verdict batch d = (if rs_ok verdict then (verdict, batch_apply batch d) else (verdict, d))"

definition db_Delete :: "rocks_status \<Rightarrow> cf_handle \<Rightarrow> string \<Rightarrow> rocks_db \<Rightarrow> rocks_status \<times> rocks_db" where
  "db_Delete verdict h k d =
     (if rs_ok verdict then (verdict, cf_update h (kv_delete k) d) else (verdict, d))"

definition db_DeleteRange ::
  "rocks_status \<Rightarrow> cf_handle \<Rightarrow> string \<Rightarrow> string \<Rightarrow> rocks_db \<Rightarrow> rocks_status \<times> rocks_db" where
  "db_DeleteRange verdict h low high d =
     (if rs_ok verdict then (verdict, cf_update h (kv_delete_range low high) d) else (verdict, d))"

text \<open>A read that the engine carries out finds the key or answers NotFound.\<close>

definition db_Get :: "rocks_status \<Rightarrow> cf_handle \<Rightarrow> string \<Rightarrow> rocks_db \<Rightarrow> rocks_status \<times> string option" where
  "db_Get verdict h k d =
     (if rs_ok verdict
      then (case map_of (cf_data d h) k of
              Some v \<Rightarrow> (verdict, Some v)
            | None \<Rightarrow> (rs_NotFound, None))
      else (verdict, None))"

text \<open>
  An iterator, when the engine produces one, walks the keys of the column family from
  the first on (\<^verbatim>\<open>SeekToFirst\<close>, \<^verbatim>\<open>Valid\<close>, \<^verbatim>\<open>Next\<close>, \<^verbatim>\<open>key\<close>).
\<close>

definition db_NewIterator :: "bool \<Rightarrow> cf_handle \<Rightarrow> rocks_db \<Rightarrow> string list option" where
  "db_NewIterator produced h d = (if produced then Some (kv_keys (cf_data d h)) else None)"

text \<open>
  A store directory on disk, as \<^verbatim>\<open>DB::Open\<close> finds it: the status an open of it reports
  (OK, corruption, or another failure) and the records of its column families.
  \<^verbatim>\<open>DB::Open\<close> with \<^verbatim>\<open>create_if_missing\<close> and \<^verbatim>\<open>create_missing_column_families\<close> set, as
  \<^verbatim>\<open>setUp\<close> sets both before its first open: a missing directory is created empty, a
  directory that does not open leaves no store and no handles, and otherwise
  \<^verbatim>\<open>handles[i]\<close> is the handle of \<^verbatim>\<open>column_families[i]\<close>. Deleting the store object writes its
  records back to its directory.
\<close>

record image =
  img_verdict :: rocks_status
  img_content :: "(string \<times> kvs) list"

definition open_handles :: "string list \<Rightarrow> cf_handle list" where
  "open_handles cfs = map (\<lambda>p. CFHandle (fst p) (snd p)) (enumerate 0 cfs)"

definition load_families :: "(string \<times> kvs) list \<Rightarrow> string list \<Rightarrow> (string \<times> kvs) list" where
  "load_families content cfs =
     map (\<lambda>n. (n, case map_of content n of Some data \<Rightarrow> data | None \<Rightarrow> [])) cfs"

definition rocks_Open ::
  "string \<Rightarrow> string list \<Rightarrow> (string \<Rightarrow> image option) \<Rightarrow>
     rocks_status \<times> cf_handle list \<times> rocks_db option \<times> (string \<Rightarrow> image option)" where
  "rocks_Open path cfs fs =
     (case fs path of
        None \<Rightarrow>
          (rs_OK, open_handles cfs, Some \<lparr>db_path = path, families = load_families [] cfs\<rparr>,
           fs(path := Some \<lparr>img_verdict = rs_OK, img_content = []\<rparr>))
      | Some img \<Rightarrow>
          if rs_ok (img_verdict img)
          then (img_verdict img, open_handles cfs,
                Some \<lparr>db_path = path, families = load_families (img_content img) cfs\<rparr>, fs)
          else (img_verdict img, [], None, fs))"

definition rocks_delete :: "rocks_db \<Rightarrow> (string \<Rightarrow> image option) \<Rightarrow> (string \<Rightarrow> image option)" where
  "rocks_delete d fs =
     (case fs (db_path d) of
        None \<Rightarrow> fs
      | Some img \<Rightarrow> fs(db_path d := Some (img\<lparr>img_content := families d\<rparr>)))"

subsection \<open>The plugin's state and its surroundings\<close>

text \<open>
  The constants and process settings the plugin reads and never writes. \<^verbatim>\<open>kDomains\<close>,
  \<^verbatim>\<open>kEvents\<close>, the \<^verbatim>\<open>DatabasePlugin\<close> switches, the \<^verbatim>\<open>database_path\<close> flag and the \<^verbatim>\<open>RLOG\<close>
  macro are declared outside this source file, so they are parameters here.
\<close>

record config =
  kDomains :: "string list"
  kEvents :: string
  kDBAllowOpen :: bool
  kDBChecking :: bool
  kDBRequireWrite :: bool
  FLAGS_database_path :: string
  RLOG :: "nat \<Rightarrow> string"

definition kDefaultColumnFamilyName :: string where
  "kDefaultColumnFamilyName = ''default''"

datatype severity = INFO | WARNING | ERROR | VERBOSE

text \<open>
  The history of the calls that leave the plugin: opens with the status they reported,
  the commits with their write options and status, the filesystem calls with their
  outcome; \<open>CRepairDB\<close> marks an entry into \<^verbatim>\<open>repairDB\<close>.
\<close>

datatype call =
    COpen string rocks_status
  | CRepairDB
  | CWrite write_options write_batch rocks_status
  | CDelete write_options cf_handle string rocks_status
  | CDeleteRange write_options cf_handle string string rocks_status
  | CRemovePath string bool
  | CMovePath string string bool

text \<open>
  The members of \<^verbatim>\<open>RocksDBDatabasePlugin\<close> (\<open>initialized\<close> to \<open>read_only\<close>, written
  without the underscore that ends their names in the source; of \<^verbatim>\<open>options_\<close>
  only what \<^verbatim>\<open>DB::Open\<close> above depends on, which \<^verbatim>\<open>setUp\<close> fixes), the process-wide
  corruption indicator and \<^verbatim>\<open>disable_events\<close> flag, the filesystem (the store directories
  \<open>files\<close> and the paths on which \<^verbatim>\<open>isReadable\<close>, \<^verbatim>\<open>removePath\<close>, \<^verbatim>\<open>movePath\<close> and
  \<^verbatim>\<open>platformChmod\<close> fail), the call history and the host log.
\<close>

record state =
  initialized :: bool
  logger :: bool
  column_families :: "string list"
  path :: string
  handles :: "cf_handle list"
  db :: "rocks_db option"
  read_only :: bool
  kRocksDBCorruptionIndicator :: bool
  FLAGS_disable_events :: bool
  files :: "string \<Rightarrow> image option"
  unreadable :: "string list"
  unremovable :: "string list"
  unmovable :: "string list"
  unchmodable :: "string list"
  calls :: "call list"
  hostlog :: "(severity \<times> string) list"

text \<open>\<^verbatim>\<open>LOG(severity) << message\<close>; \<^verbatim>\<open>VLOG(1)\<close> is the severity \<open>VERBOSE\<close>.\<close>

definition LOG :: "severity \<Rightarrow> string \<Rightarrow> state \<Rightarrow> state" where
  "LOG sev msg s = s\<lparr>hostlog := hostlog s @ [(sev, msg)]\<rparr>"

text \<open>A number streamed into a log line, in decimal.\<close>

fun dec :: "nat \<Rightarrow> string" where
  "dec n = (if n < 10 then [''0123456789'' ! n]
            else dec (n div 10) @ [''0123456789'' ! (n mod 10)])"

declare dec.simps [simp del]

text \<open>
  Modelled from the spec: the filesystem helpers \<^verbatim>\<open>pathExists\<close>, \<^verbatim>\<open>isReadable\<close>,
  \<^verbatim>\<open>removePath\<close>, \<^verbatim>\<open>movePath\<close> and \<^verbatim>\<open>platformChmod\<close> of osquery's filesystem module, which
  is not among the sources. The spec (section 6) has each one atomic and answering
  success or failure only. A removal or move that succeeds takes the directory away
  from its path (and a move puts it at the target); one that fails changes nothing.
\<close>

definition pathExists :: "state \<Rightarrow> string \<Rightarrow> bool" where
  "pathExists s p = (files s p \<noteq> None)"

definition isReadable :: "state \<Rightarrow> string \<Rightarrow> bool" where
  "isReadable s p = (files s p \<noteq> None \<and> p \<notin> set (unreadable s))"

definition removePath :: "string \<Rightarrow> state \<Rightarrow> bool \<times> state" where
  "removePath p s =
     (if files s p \<noteq> None \<and> p \<notin> set (unremovable s)
      then (True, s\<lparr>files := (files s)(p := None), calls := calls s @ [CRemovePath p True]\<rparr>)
      else (False, s\<lparr>calls := calls s @ [CRemovePath p False]\<rparr>))"

definition movePath :: "string \<Rightarrow> string \<Rightarrow> state \<Rightarrow> bool \<times> state" where
  "movePath src dst s =
     (if files s src \<noteq> None \<and> src \<notin> set (unmovable s)
      then (True, s\<lparr>files := (files s)(src := None, dst := files s src),
                     calls := calls s @ [CMovePath src dst True]\<rparr>)
      else (False, s\<lparr>calls := calls s @ [CMovePath src dst False]\<rparr>))"

definition platformChmod :: "state \<Rightarrow> string \<Rightarrow> bool" where
  "platformChmod s p = (files s p \<noteq> None \<and> p \<notin> set (unchmodable s))"

text \<open>\<^verbatim>\<open>fs::path(p).make_preferred().string()\<close> on a POSIX system, where it changes nothing.\<close>

definition make_preferred :: "string \<Rightarrow> string" where
  "make_preferred p = p"

subsection \<open>The corruption indicator and the log interceptor\<close>

definition isCorrupted :: "state \<Rightarrow> bool" where
  "isCorrupted s = kRocksDBCorruptionIndicator s"

definition setCorrupted :: "bool \<Rightarrow> state \<Rightarrow> state" where
  "setCorrupted corrupted s = s\<lparr>kRocksDBCorruptionIndicator := corrupted\<rparr>"

text \<open>
  \<^verbatim>\<open>char buffer[501] = {0}; vsnprintf(buffer, 500, format, ap)\<close>: the buffer holds the
  first 499 bytes of the formatted line and zero bytes after them; \<^verbatim>\<open>log_line = buffer\<close>
  reads it up to the first zero byte.
\<close>

definition vsnprintf_buffer :: "string \<Rightarrow> string" where
  "vsnprintf_buffer formatted =
     take 499 formatted @ replicate (501 - length (take 499 formatted)) (CHR 0x00)"

definition c_str :: "string \<Rightarrow> string" where
  "c_str buffer = takeWhile (\<lambda>c. c \<noteq> CHR 0x00) buffer"

text \<open>
  \<open>Logv\<close> receives the line as the engine formatted it. The interceptor calls
  \<^verbatim>\<open>setCorrupted()\<close> without an argument. Modelled from the spec: the default argument is
  declared in the header \<^verbatim>\<open>rocksdb.h\<close>, which is not among the sources; by the spec
  (section 4.6 d) the call sets the flag to true.
\<close>

definition Logv :: "string \<Rightarrow> state \<Rightarrow> state" where
  "Logv formatted s =
     (let buffer = vsnprintf_buffer formatted in
      if buffer ! 0 \<noteq> CHR ''['' \<or> (buffer ! 1 \<noteq> CHR ''E'' \<and> buffer ! 1 \<noteq> CHR ''W'') then s
      else
        let log_line = c_str buffer;
            s1 = (if str_find log_line ''Error when reading'' = None
                  then LOG INFO (''RocksDB: '' @ log_line) s else s)
        in if str_find log_line ''Corruption:'' \<noteq> None then setCorrupted True s1 else s1)"

subsection \<open>Lifecycle: \<^verbatim>\<open>repairDB\<close>, \<^verbatim>\<open>close\<close>, \<^verbatim>\<open>setUp\<close>\<close>

text \<open>Lines 215 to 223 of \<^verbatim>\<open>repairDB\<close>: the move of the store directory to the backup path.\<close>

definition repair_move :: "string \<Rightarrow> state \<Rightarrow> state" where
  "repair_move bpath s =
     (case movePath (path s) bpath s of
        (True, s1) \<Rightarrow>
          LOG WARNING ''Destroying RocksDB database due to corruption''
            (LOG WARNING (''Backing up RocksDB database: '' @ bpath) s1)
      | (False, s1) \<Rightarrow> LOG ERROR (''Cannot backup the RocksDB database: '' @ bpath) s1)"

definition repairDB :: "state \<Rightarrow> state" where
  "repairDB s0 =
     (let s = s0\<lparr>calls := calls s0 @ [CRepairDB]\<rparr>;
          bpath = path s @ ''.backup''
      in if pathExists s bpath
         then (case removePath bpath s of
                 (False, s1) \<Rightarrow>
                   LOG ERROR (''Cannot remove previous RocksDB database backup: '' @ bpath) s1
               | (True, s1) \<Rightarrow>
                   repair_move bpath
                     (LOG WARNING (''Removed previous RocksDB database backup: '' @ bpath) s1))
         else repair_move bpath s)"

text \<open>
  \<open>close\<close> holds \<^verbatim>\<open>close_mutex_\<close> for its whole body; the embedding is sequential, so the
  lock does not appear. \<open>release\<close> is lines 179 to 187: the handles are deleted and the
  vector cleared, then the store object is deleted and its pointer set to null.
\<close>

definition release :: "state \<Rightarrow> state" where
  "release s =
     (let s1 = s\<lparr>handles := []\<rparr>
      in case db s1 of
           None \<Rightarrow> s1
         | Some d \<Rightarrow> s1\<lparr>db := None, files := rocks_delete d (files s1)\<rparr>)"

definition close :: "state \<Rightarrow> state" where
  "close s =
     (let s2 = release s
      in if isCorrupted s2 then setCorrupted False (repairDB s2) else s2)"

definition tearDown :: "state \<Rightarrow> state" where
  "tearDown s = close s"

text \<open>\<^verbatim>\<open>rocksdb::DB::Open(options_, path_, column_families_, &handles_, &db_)\<close>.\<close>

definition DB_Open :: "state \<Rightarrow> rocks_status \<times> state" where
  "DB_Open s =
     (case rocks_Open (path s) (column_families s) (files s) of
        (st, hs, d, fs) \<Rightarrow>
          (st, s\<lparr>handles := hs, db := d, files := fs, calls := calls s @ [COpen (path s) st]\<rparr>))"

text \<open>
  osquery's \<^verbatim>\<open>Status\<close>, a code and a message. The class is declared outside this source
  file; \<^verbatim>\<open>Status(0)\<close>, built from the code alone, carries the message "OK".
\<close>

datatype Status = Status (getCode: int) (getMessage: string)

text \<open>Lines 166 to 170 of \<^verbatim>\<open>setUp\<close>: the permission check of a writable open.\<close>

definition setUp_permissions :: "state \<Rightarrow> Status \<times> state" where
  "setUp_permissions s =
     (if \<not> read_only s \<and> platformChmod s (path s) = False
      then (Status 1 (''Cannot set permissions on RocksDB path: '' @ path s), s)
      else (Status 0 ''OK'', s))"

text \<open>Lines 140 to 148: the open, and after a corruption status the repair and one more open.\<close>

definition setUp_open :: "state \<Rightarrow> rocks_status \<times> state" where
  "setUp_open s =
     (case DB_Open s of
        (st, s1) \<Rightarrow> if IsCorruption st then DB_Open (repairDB s1) else (st, s1))"

text \<open>Lines 78 to 127: the warning, the one-time configuration, the path.\<close>

definition setUp_configure :: "config \<Rightarrow> state \<Rightarrow> state" where
  "setUp_configure cfg s0 =
     (let s1 = (if \<not> kDBAllowOpen cfg
                then LOG WARNING (RLOG cfg 1629 @ ''Not allowed to set up database plugin'') s0
                else s0);
          s2 = (if \<not> initialized s1
                then s1\<lparr>initialized := True, logger := True,
                        column_families :=
                          column_families s1 @ [kDefaultColumnFamilyName] @ kDomains cfg\<rparr>
                else s1)
      in s2\<lparr>path := make_preferred (FLAGS_database_path cfg)\<rparr>)"

definition setUp :: "config \<Rightarrow> state \<Rightarrow> Status \<times> state" where
  "setUp cfg s0 =
     (let s3 = setUp_configure cfg s0
      in if pathExists s3 (path s3) \<and> \<not> isReadable s3 (path s3)
         then (Status 1 (''Cannot read RocksDB path: '' @ path s3), s3)
         else
           let s4 = (if \<not> kDBChecking cfg
                     then LOG VERBOSE (''Opening RocksDB handle: '' @ path s3) s3 else s3)
           in case setUp_open (close s4) of
                (st, s5) \<Rightarrow>
                  if \<not> rs_ok st \<or> db s5 = None
                  then
                    let s6 = LOG INFO (''Rocksdb open failed ('' @ dec (rs_code st) @ '':''
                                        @ dec (rs_subcode st) @ '') '' @ rs_text st) s5
                    in if kDBRequireWrite cfg then (Status 1 (rs_text st), s6)
                       else
                         let s7 = (if \<not> kDBChecking cfg
                                   then LOG INFO ''Opening RocksDB failed: Continuing with read-only support'' s6
                                   else s6)
                         in setUp_permissions (s7\<lparr>FLAGS_disable_events := True, read_only := True\<rparr>)
                  else setUp_permissions s5)"

subsection \<open>The router and the store operations\<close>

text \<open>
  \<^verbatim>\<open>getDB()\<close> is the member \<open>db\<close>. The integer overloads of \<open>get\<close> and \<open>put\<close> convert
  between text and number around the string overloads below, and \<^verbatim>\<open>dumpDatabase\<close> has an
  empty body; they are not repeated here. \<^verbatim>\<open>remove\<close> is \<open>remove_op\<close>, the name \<open>remove\<close> being
  taken by a constant of the library.

  \<open>getHandleForColumnFamily\<close>: \<^verbatim>\<open>handles_[i]\<close> for the index \<open>i\<close> of the name in
  \<^verbatim>\<open>kDomains\<close>, a null pointer (\<open>None\<close>) for a name that is not there. \<^verbatim>\<open>operator[]\<close> does
  not check its index.
\<close>

definition getHandleForColumnFamily :: "config \<Rightarrow> state \<Rightarrow> string \<Rightarrow> fault + cf_handle option" where
  "getHandleForColumnFamily cfg s cf =
     (let i = std_find (kDomains cfg) cf in
      if i \<noteq> length (kDomains cfg)
      then (if i < length (handles s) then Inr (Some (handles s ! i)) else Inl OutOfBounds)
      else Inr None)"

text \<open>
  \<open>get\<close> (the string overload). The second component is what the engine stored through
  the \<^verbatim>\<open>value\<close> reference: the value found, \<open>None\<close> when it wrote none.
\<close>

definition get ::
  "config \<Rightarrow> rocks_status \<Rightarrow> state \<Rightarrow> string \<Rightarrow> string \<Rightarrow> fault + (Status \<times> string option)" where
  "get cfg verdict s domain key =
     (case db s of
        None \<Rightarrow> Inr (Status 1 ''Database not opened'', None)
      | Some d \<Rightarrow>
          (case getHandleForColumnFamily cfg s domain of
             Inl f \<Rightarrow> Inl f
           | Inr None \<Rightarrow> Inr (Status 1 (''Could not get column family for '' @ domain), None)
           | Inr (Some cfh) \<Rightarrow>
               (case db_Get verdict cfh key d of
                  (st, v) \<Rightarrow> Inr (Status (int (rs_code st)) (rs_text st), v))))"

text \<open>Lines 286 to 292: the write options of a batch.\<close>

definition put_options :: "config \<Rightarrow> string \<Rightarrow> write_options" where
  "put_options cfg domain =
     (if kEvents cfg = domain then WriteOptions\<lparr>disableWAL := True\<rparr>
      else WriteOptions\<lparr>sync := True\<rparr>)"

text \<open>Lines 334 to 340 and 356 to 362: the write options of a delete.\<close>

definition delete_options :: "config \<Rightarrow> string \<Rightarrow> write_options" where
  "delete_options cfg domain =
     (if kEvents cfg \<noteq> domain then WriteOptions\<lparr>sync := True\<rparr> else WriteOptions)"

text \<open>Lines 303 to 313: the status \<open>putBatch\<close> returns for the status of its commit.\<close>

definition write_status :: "rocks_status \<Rightarrow> fault + Status" where
  "write_status st =
     (if rs_code st \<noteq> 0 \<and> IsIOError st
      then (let error_string = rs_text st in
            case find_last_of error_string (CHR '':'') of
              Some error_pos \<Rightarrow>
                (case substr error_string (error_pos + 2) of
                   Inl f \<Rightarrow> Inl f
                 | Inr rest \<Rightarrow> Inr (Status (int (rs_code st)) (''IOError: '' @ rest)))
            | None \<Rightarrow> Inr (Status (int (rs_code st)) (rs_text st)))
      else Inr (Status (int (rs_code st)) (rs_text st)))"

definition putBatch ::
  "config \<Rightarrow> rocks_status \<Rightarrow> state \<Rightarrow> string \<Rightarrow> (string \<times> string) list \<Rightarrow> fault + (Status \<times> state)" where
  "putBatch cfg verdict s domain data =
     (if read_only s then Inr (Status 0 ''Database in readonly mode'', s)
      else
        case getHandleForColumnFamily cfg s domain of
          Inl f \<Rightarrow> Inl f
        | Inr None \<Rightarrow> Inr (Status 1 (''Could not get column family for '' @ domain), s)
        | Inr (Some cfh) \<Rightarrow>
            (let options = put_options cfg domain;
                 batch = map (\<lambda>p. (cfh, fst p, snd p)) data
             in case db s of
                  None \<Rightarrow> Inl NullDeref
                | Some d \<Rightarrow>
                    (case db_Write verdict batch d of
                       (st, d1) \<Rightarrow>
                         (case write_status st of
                            Inl f \<Rightarrow> Inl f
                          | Inr status \<Rightarrow>
                              Inr (status, s\<lparr>db := Some d1,
                                             calls := calls s @ [CWrite options batch st]\<rparr>)))))"

definition put ::
  "config \<Rightarrow> rocks_status \<Rightarrow> state \<Rightarrow> string \<Rightarrow> string \<Rightarrow> string \<Rightarrow> fault + (Status \<times> state)" where
  "put cfg verdict s domain key val = putBatch cfg verdict s domain [(key, val)]"

definition remove_op ::
  "config \<Rightarrow> rocks_status \<Rightarrow> state \<Rightarrow> string \<Rightarrow> string \<Rightarrow> fault + (Status \<times> state)" where
  "remove_op cfg verdict s domain key =
     (if read_only s then Inr (Status 0 ''Database in readonly mode'', s)
      else
        case getHandleForColumnFamily cfg s domain of
          Inl f \<Rightarrow> Inl f
        | Inr None \<Rightarrow> Inr (Status 1 (''Could not get column family for '' @ domain), s)
        | Inr (Some cfh) \<Rightarrow>
            (let options = delete_options cfg domain
             in case db s of
                  None \<Rightarrow> Inl NullDeref
                | Some d \<Rightarrow>
                    (case db_Delete verdict cfh key d of
                       (st, d1) \<Rightarrow>
                         Inr (Status (int (rs_code st)) (rs_text st),
                              s\<lparr>db := Some d1, calls := calls s @ [CDelete options cfh key st]\<rparr>))))"

text \<open>
  \<open>removeRange\<close> makes two engine calls, each with its own answer from the engine; the
  status of the point delete replaces the status of the range delete.
\<close>

definition removeRange ::
  "config \<Rightarrow> rocks_status \<Rightarrow> rocks_status \<Rightarrow> state \<Rightarrow> string \<Rightarrow> string \<Rightarrow> string \<Rightarrow>
     fault + (Status \<times> state)" where
  "removeRange cfg verdict_range verdict_delete s domain low high =
     (if read_only s then Inr (Status 0 ''Database in readonly mode'', s)
      else
        case getHandleForColumnFamily cfg s domain of
          Inl f \<Rightarrow> Inl f
        | Inr None \<Rightarrow> Inr (Status 1 (''Could not get column family for '' @ domain), s)
        | Inr (Some cfh) \<Rightarrow>
            (let options = delete_options cfg domain
             in case db s of
                 None \<Rightarrow> Inl NullDeref
               | Some d \<Rightarrow>
                   (case db_DeleteRange verdict_range cfh low high d of
                      (st1, d1) \<Rightarrow>
                        let s1 = s\<lparr>db := Some d1,
                                   calls := calls s @ [CDeleteRange options cfh low high st1]\<rparr>
                        in if low \<le> high
                           then (case db_Delete verdict_delete cfh high d1 of
                                   (st2, d2) \<Rightarrow>
                                     Inr (Status (int (rs_code st2)) (rs_text st2),
                                          s1\<lparr>db := Some d2,
                                             calls := calls s1 @ [CDelete options cfh high st2]\<rparr>))
                           else Inr (Status (int (rs_code st1)) (rs_text st1), s1))))"

text \<open>
  The loop of \<open>scan\<close> over the keys the iterator yields: \<^verbatim>\<open>key.find(prefix) == 0\<close> selects
  a key, \<^verbatim>\<open>max > 0 && ++count >= max\<close> ends the loop after it.
\<close>

fun scan_loop :: "string \<Rightarrow> nat \<Rightarrow> string list \<Rightarrow> nat \<Rightarrow> string list \<Rightarrow> string list" where
  "scan_loop prefix_s max_n [] count results = results"
| "scan_loop prefix_s max_n (key # rest) count results =
     (if str_find key prefix_s = Some 0
      then (if 0 < max_n
            then (if max_n \<le> Suc count then results @ [key]
                  else scan_loop prefix_s max_n rest (Suc count) (results @ [key]))
            else scan_loop prefix_s max_n rest count (results @ [key]))
      else scan_loop prefix_s max_n rest count results)"

text \<open>
  \<open>scan\<close> appends to the \<^verbatim>\<open>results\<close> vector it is given. \<open>produced\<close> says whether the engine
  hands out an iterator.
\<close>

definition scan ::
  "config \<Rightarrow> bool \<Rightarrow> state \<Rightarrow> string \<Rightarrow> string list \<Rightarrow> string \<Rightarrow> nat \<Rightarrow>
     fault + (Status \<times> string list)" where
  "scan cfg produced s domain results prefix_s max_n =
     (case db s of
        None \<Rightarrow> Inr (Status 1 ''Database not opened'', results)
      | Some d \<Rightarrow>
          (case getHandleForColumnFamily cfg s domain of
             Inl f \<Rightarrow> Inl f
           | Inr None \<Rightarrow> Inr (Status 1 (''Could not get column family for '' @ domain), results)
           | Inr (Some cfh) \<Rightarrow>
               (case db_NewIterator produced cfh d of
                  None \<Rightarrow> Inr (Status 1 (''Could not get iterator for '' @ domain), results)
                | Some keys \<Rightarrow> Inr (Status 0 ''OK'', scan_loop prefix_s max_n keys 0 results))))"

subsection \<open>A sample configuration and sample states\<close>

text \<open>
  The concrete inputs of the examples below: a domain list with the event domain in
  it, and a plugin that has just been constructed, over a filesystem with nothing in it.
\<close>

definition cfg0 :: config where
  "cfg0 = \<lparr>kDomains = [''configurations'', ''queries'', ''events'', ''logs'', ''carves''],
            kEvents = ''events'', kDBAllowOpen = True, kDBChecking = True,
            kDBRequireWrite = False, FLAGS_database_path = ''/db'',
            RLOG = (\<lambda>n. ''[Ref #'' @ dec n @ ''] '')\<rparr>"

definition fresh :: state where
  "fresh = \<lparr>initialized = False, logger = False, column_families = [], path = [],
             handles = [], db = None, read_only = False,
             kRocksDBCorruptionIndicator = False, FLAGS_disable_events = False,
             files = (\<lambda>p. None), unreadable = [], unremovable = [], unmovable = [],
             unchmodable = [], calls = [], hostlog = []\<rparr>"

text \<open>The plugin after its first \<open>setUp\<close>: a writable store with every column family empty.\<close>

definition opened :: state where
  "opened = snd (setUp cfg0 fresh)"

text \<open>
  An I/O failure as the engine words it, with the file it failed on; a store directory
  that fails to open with it; the plugin after a \<open>setUp\<close> on that directory, which
  degrades to read-only; and the same plugin after one more \<open>setUp\<close>, the directory
  having been taken away in between.
\<close>

definition io_error :: rocks_status where
  "io_error = \<lparr>rs_code = 5, rs_subcode = 0,
                rs_text = ''IO error: /db/000003.log: No space left on device''\<rparr>"

definition damaged :: state where
  "damaged = fresh\<lparr>files := (\<lambda>p. None)(''/db'' := Some \<lparr>img_verdict = io_error, img_content = []\<rparr>)\<rparr>"

definition degraded :: state where
  "degraded = snd (setUp cfg0 damaged)"

definition reopened :: state where
  "reopened = snd (setUp cfg0 (degraded\<lparr>files := (\<lambda>p. None)\<rparr>))"

text \<open>What a call returned, and the calls it left in the history.\<close>

definition surfaced :: "fault + (Status \<times> state) \<Rightarrow> fault + Status" where
  "surfaced r = map_sum id fst r"

definition issued :: "fault + (Status \<times> state) \<Rightarrow> fault + call list" where
  "issued r = map_sum id (\<lambda>p. calls (snd p)) r"

text \<open>
  The state a call returned (the state of a call that did not return is of no
  interest), and the keys a state holds under a handle.
\<close>

definition state_of :: "fault + (Status \<times> state) \<Rightarrow> state" where
  "state_of r = (case r of Inr (st, s) \<Rightarrow> s | Inl f \<Rightarrow> fresh)"

definition stored_keys :: "state \<Rightarrow> cf_handle \<Rightarrow> string list" where
  "stored_keys s h = (case db s of None \<Rightarrow> [] | Some d \<Rightarrow> kv_keys (cf_data d h))"

text \<open>The opened plugin after one batch into the domain \<open>queries\<close>: the stores of the spec's examples.\<close>

definition abcd :: state where
  "abcd = state_of (putBatch cfg0 rs_OK opened ''queries''
                      [(''c'', ''3''), (''a'', ''1''), (''d'', ''4''), (''b'', ''2'')])"

definition a123b1 :: state where
  "a123b1 = state_of (putBatch cfg0 rs_OK opened ''queries''
                        [(''b1'', ''w''), (''a3'', ''z''), (''a1'', ''x''), (''a2'', ''y'')])"

text \<open>
  The interceptor's level check in the words of the spec (the first two characters are
  an opening bracket and then E or W), the part of a line the interceptor keeps, and a
  line of 510 bytes with the corruption marker at its end.
\<close>

definition passes_level_check :: "string \<Rightarrow> bool" where
  "passes_level_check line =
     (case line of
        c0 # c1 # rest \<Rightarrow> c0 = CHR ''['' \<and> (c1 = CHR ''E'' \<or> c1 = CHR ''W'')
      | _ \<Rightarrow> False)"

definition kept :: "string \<Rightarrow> string" where
  "kept line = c_str (take 499 line)"

definition long_line :: string where
  "long_line = ''[E'' @ replicate 497 (CHR ''x'') @ ''Corruption:''"

text \<open>
  The opens and the entries into \<^verbatim>\<open>repairDB\<close> of a call history; a corruption status; and a
  plugin whose corruption flag is set, over a store directory that opens with that
  status and an older backup that cannot be removed.
\<close>

fun is_lifecycle :: "call \<Rightarrow> bool" where
  "is_lifecycle (COpen p st) = True"
| "is_lifecycle CRepairDB = True"
| "is_lifecycle c = False"

definition lifecycle :: "call list \<Rightarrow> call list" where
  "lifecycle cs = filter is_lifecycle cs"

definition corruption :: rocks_status where
  "corruption = \<lparr>rs_code = 2, rs_subcode = 0, rs_text = ''Corruption: bad magic number''\<rparr>"

definition corrupt_store :: state where
  "corrupt_store =
     fresh\<lparr>files := (\<lambda>p. None)(''/db'' := Some \<lparr>img_verdict = corruption, img_content = []\<rparr>)\<rparr>"

definition flagged :: state where
  "flagged =
     fresh\<lparr>kRocksDBCorruptionIndicator := True,
           files := (\<lambda>p. None)(''/db'' := Some \<lparr>img_verdict = corruption, img_content = []\<rparr>,
                                ''/db.backup'' := Some \<lparr>img_verdict = rs_OK, img_content = []\<rparr>),
           unremovable := [''/db.backup'']\<rparr>"

text \<open>The store of the example with the corruption flag set while it is open.\<close>

definition flagged_abcd :: state where
  "flagged_abcd = setCorrupted True abcd"

text \<open>The same with an older backup in place that cannot be removed.\<close>

definition flagged_abcd_blocked :: state where
  "flagged_abcd_blocked =
     flagged_abcd\<lparr>files := (files flagged_abcd)
                            (''/db.backup'' := Some \<lparr>img_verdict = rs_OK, img_content = []\<rparr>),
                  unremovable := [''/db.backup'']\<rparr>"

text \<open>An I/O failure whose text names the file last.\<close>

definition io_error_named :: rocks_status where
  "io_error_named = \<lparr>rs_code = 5, rs_subcode = 0,
                      rs_text = ''IO error: Failed to sync: /db/000003.log''\<rparr>"

lemma find_from_ge: "find_from s n p = Some q \<Longrightarrow> p \<le> q"
  by (induction s arbitrary: p) (auto split: if_splits dest: Suc_leD)

lemma find_from_start: "find_from s n p = Some p \<longleftrightarrow> prefix n s"
proof (cases s)
  case Nil
  then show ?thesis by auto
next
  case (Cons c cs)
  have "find_from cs n (Suc p) \<noteq> Some p"
    using find_from_ge [of cs n "Suc p" p] by auto
  with Cons show ?thesis by auto
qed

lemma str_find_zero: "str_find s n = Some 0 \<longleftrightarrow> prefix n s"
  by (simp add: str_find_def find_from_start)

lemma find_from_None: "find_from s n p = None \<longleftrightarrow> (\<forall>a b. s \<noteq> a @ n @ b)"
proof (induction s arbitrary: p)
  case Nil
  then show ?case by auto
next
  case (Cons c cs)
  show ?case
  proof (cases "prefix n (c # cs)")
    case True
    then obtain b where "c # cs = n @ b" by (auto simp: prefix_def)
    then have "c # cs = [] @ n @ b" by simp
    with True show ?thesis by (metis find_from.simps(2) option.distinct(1))
  next
    case False
    have "(\<forall>a b. c # cs \<noteq> a @ n @ b) \<longleftrightarrow> (\<forall>a b. cs \<noteq> a @ n @ b)"
    proof
      assume h: "\<forall>a b. c # cs \<noteq> a @ n @ b"
      show "\<forall>a b. cs \<noteq> a @ n @ b"
      proof (intro allI notI)
        fix a b assume "cs = a @ n @ b"
        then have "c # cs = (c # a) @ n @ b" by simp
        with h show False by blast
      qed
    next
      assume h: "\<forall>a b. cs \<noteq> a @ n @ b"
      show "\<forall>a b. c # cs \<noteq> a @ n @ b"
      proof (intro allI notI)
        fix a b assume e: "c # cs = a @ n @ b"
        show False
        proof (cases a)
          case Nil
          with e have "prefix n (c # cs)" by (simp add: prefix_def)
          with False show False by simp
        next
          case (Cons x xs)
          with e have "cs = xs @ n @ b" by simp
          with h show False by blast
        qed
      qed
    qed
    with False Cons.IH [of "Suc p"] show ?thesis by simp
  qed
qed

lemma str_find_contains: "str_find s n \<noteq> None \<longleftrightarrow> (\<exists>a b. s = a @ n @ b)"
  by (simp add: str_find_def find_from_None)

lemma scan_loop_eq:
  "max_n = 0 \<or> count < max_n \<Longrightarrow>
   scan_loop P max_n keys count results =
     results @ (if max_n = 0 then filter (prefix P) keys
                else take (max_n - count) (filter (prefix P) keys))"
proof (induction keys arbitrary: count results)
  case Nil
  then show ?case by simp
next
  case (Cons key rest)
  show ?case
  proof (cases "prefix P key")
    case False
    with Cons show ?thesis by (simp add: str_find_zero)
  next
    case True
    show ?thesis
    proof (cases "max_n = 0")
      case True
      with \<open>prefix P key\<close> Cons.IH [of count "results @ [key]"] show ?thesis
        by (simp add: str_find_zero)
    next
      case False
      with Cons.prems have lt: "count < max_n" by simp
      show ?thesis
      proof (cases "max_n \<le> Suc count")
        case True
        with lt have "max_n - count = Suc 0" by simp
        with True False \<open>prefix P key\<close> show ?thesis by (simp add: str_find_zero)
      next
        case False
        then have "Suc count < max_n" by simp
        moreover have "max_n - count = Suc (max_n - Suc count)" using False by simp
        ultimately show ?thesis
          using \<open>prefix P key\<close> \<open>max_n \<noteq> 0\<close> Cons.IH [of "Suc count" "results @ [key]"] False
          by (simp add: str_find_zero)
      qed
    qed
  qed
qed

subsection \<open>The router\<close>

lemma std_find_le: "std_find xs x \<le> length xs"
  by (induction xs) auto

lemma std_find_member: "std_find xs x \<noteq> length xs \<longleftrightarrow> x \<in> set xs"
  by (induction xs) auto

lemma std_find_nth: "distinct xs \<Longrightarrow> i < length xs \<Longrightarrow> std_find xs (xs ! i) = i"
proof (induction xs arbitrary: i)
  case Nil
  then show ?case by simp
next
  case (Cons y ys)
  then show ?case by (cases i) auto
qed

lemma router_unknown: "domain \<notin> set (kDomains cfg) \<Longrightarrow> getHandleForColumnFamily cfg s domain = Inr None"
  by (simp add: getHandleForColumnFamily_def std_find_member)

lemma router_no_handles:
  "domain \<in> set (kDomains cfg) \<Longrightarrow> handles s = [] \<Longrightarrow>
   getHandleForColumnFamily cfg s domain = Inl OutOfBounds"
  by (simp add: getHandleForColumnFamily_def std_find_member)

lemma router_member:
  "domain \<in> set (kDomains cfg) \<Longrightarrow> getHandleForColumnFamily cfg s domain \<noteq> Inr None"
  by (simp add: getHandleForColumnFamily_def Let_def std_find_member)

lemma close_closed: "handles (close s) = [] \<and> db (close s) = None"
  by (simp add: close_def release_def Let_def setCorrupted_def repairDB_def repair_move_def
      movePath_def removePath_def LOG_def pathExists_def isCorrupted_def split: option.splits)

text \<open>
  C10. On a closed engine that is not read-only, \<open>get\<close> and \<open>scan\<close> return the
  "Database not opened" error, while \<open>putBatch\<close>, \<open>remove\<close> and \<open>removeRange\<close> have no such
  check: for every name of \<^verbatim>\<open>kDomains\<close> they index the empty handle array out of bounds,
  none of them returns a status while the store handle is null, and \<open>putBatch\<close> (like
  the two deletes) calls through the null store handle whenever its handle lookup
  gives a handle.
\<close>

theorem C10_writes_need_open_engine:
  assumes "db s = None" and "\<not> read_only s" and "domain \<in> set (kDomains cfg)"
  shows "get cfg gv s domain key = Inr (Status 1 ''Database not opened'', None)
       \<and> scan cfg produced s domain results prefix_s max_n = Inr (Status 1 ''Database not opened'', results)
       \<and> (handles s = [] \<longrightarrow>
            putBatch cfg v s domain data = Inl OutOfBounds
          \<and> remove_op cfg v s domain key = Inl OutOfBounds
          \<and> removeRange cfg v v2 s domain low high = Inl OutOfBounds)
       \<and> (\<exists>f. putBatch cfg v s domain data = Inl f)
       \<and> (\<exists>f. remove_op cfg v s domain key = Inl f)
       \<and> (\<exists>f. removeRange cfg v v2 s domain low high = Inl f)
       \<and> (\<forall>cfh. getHandleForColumnFamily cfg s domain = Inr (Some cfh) \<longrightarrow>
            putBatch cfg v s domain data = Inl NullDeref
          \<and> remove_op cfg v s domain key = Inl NullDeref
          \<and> removeRange cfg v v2 s domain low high = Inl NullDeref)"
proof -
  have r: "getHandleForColumnFamily cfg s domain \<noteq> Inr None"
    using assms(3) by (rule router_member)
  have a: "get cfg gv s domain key = Inr (Status 1 ''Database not opened'', None)"
    using assms(1) by (simp add: get_def)
  have b: "scan cfg produced s domain results prefix_s max_n = Inr (Status 1 ''Database not opened'', results)"
    using assms(1) by (simp add: scan_def)
  have c: "handles s = [] \<longrightarrow>
            putBatch cfg v s domain data = Inl OutOfBounds
          \<and> remove_op cfg v s domain key = Inl OutOfBounds
          \<and> removeRange cfg v v2 s domain low high = Inl OutOfBounds"
    using assms(2,3) by (simp add: putBatch_def remove_op_def removeRange_def router_no_handles)
  have d: "\<exists>f. putBatch cfg v s domain data = Inl f"
    using assms(1,2) r
    by (cases "getHandleForColumnFamily cfg s domain")
       (auto simp: putBatch_def Let_def split: option.splits)
  have d2: "\<exists>f. remove_op cfg v s domain key = Inl f"
    using assms(1,2) r
    by (cases "getHandleForColumnFamily cfg s domain")
       (auto simp: remove_op_def Let_def split: option.splits)
  have d3: "\<exists>f. removeRange cfg v v2 s domain low high = Inl f"
    using assms(1,2) r
    by (cases "getHandleForColumnFamily cfg s domain")
       (auto simp: removeRange_def Let_def split: option.splits)
  have e: "\<forall>cfh. getHandleForColumnFamily cfg s domain = Inr (Some cfh) \<longrightarrow>
            putBatch cfg v s domain data = Inl NullDeref
          \<and> remove_op cfg v s domain key = Inl NullDeref
          \<and> removeRange cfg v v2 s domain low high = Inl NullDeref"
    using assms(1,2) by (simp add: putBatch_def remove_op_def removeRange_def Let_def)
  from a b c d d2 d3 e show ?thesis by blast
qed

subsection \<open>The sample states, evaluated\<close>

lemmas lifecycle_defs =
  setUp_def setUp_configure_def setUp_open_def setUp_permissions_def DB_Open_def rocks_Open_def rocks_delete_def
  open_handles_def load_families_def close_def release_def repairDB_def repair_move_def movePath_def
  removePath_def pathExists_def isReadable_def platformChmod_def isCorrupted_def
  setCorrupted_def LOG_def make_preferred_def kDefaultColumnFamilyName_def rs_ok_def
  IsCorruption_def Let_def

lemma opened_eq:
  "opened =
     \<lparr>initialized = True, logger = True,
      column_families = [''default'', ''configurations'', ''queries'', ''events'', ''logs'', ''carves''],
      path = ''/db'',
      handles = [CFHandle 0 ''default'', CFHandle 1 ''configurations'', CFHandle 2 ''queries'',
                 CFHandle 3 ''events'', CFHandle 4 ''logs'', CFHandle 5 ''carves''],
      db = Some \<lparr>db_path = ''/db'',
                  families = [(''default'', []), (''configurations'', []), (''queries'', []),
                              (''events'', []), (''logs'', []), (''carves'', [])]\<rparr>,
      read_only = False, kRocksDBCorruptionIndicator = False, FLAGS_disable_events = False,
      files = (\<lambda>p. None)(''/db'' := Some \<lparr>img_verdict = rs_OK, img_content = []\<rparr>),
      unreadable = [], unremovable = [], unmovable = [], unchmodable = [],
      calls = [COpen ''/db'' rs_OK], hostlog = []\<rparr>"
  by (simp add: opened_def cfg0_def fresh_def lifecycle_defs rs_OK_def)

theorem C10_witness:
  "get cfg0 rs_OK (close opened) ''queries'' ''k'' = Inr (Status 1 ''Database not opened'', None)
   \<and> scan cfg0 True (close opened) ''queries'' [] '''' 0 = Inr (Status 1 ''Database not opened'', [])
   \<and> putBatch cfg0 rs_OK (close opened) ''queries'' [(''k'', ''v'')] = Inl OutOfBounds
   \<and> remove_op cfg0 rs_OK (close opened) ''queries'' ''k'' = Inl OutOfBounds
   \<and> removeRange cfg0 rs_OK rs_OK (close opened) ''queries'' ''a'' ''c'' = Inl OutOfBounds"
proof -
  have closed: "db (close opened) = None" "handles (close opened) = []"
    using close_closed [of opened] by simp_all
  have writable: "\<not> read_only (close opened)"
    by (simp add: opened_eq lifecycle_defs)
  have known: "''queries'' \<in> set (kDomains cfg0)"
    by (simp add: cfg0_def)
  show ?thesis
    using C10_writes_need_open_engine [OF closed(1) writable known, of rs_OK "''k''" True "[]" "[]" 0
        rs_OK "[(''k'', ''v'')]" rs_OK "''a''" "''c''"] closed(2)
    by simp
qed

lemma degraded_eq:
  "degraded =
     \<lparr>initialized = True, logger = True,
      column_families = [''default'', ''configurations'', ''queries'', ''events'', ''logs'', ''carves''],
      path = ''/db'', handles = [], db = None,
      read_only = True, kRocksDBCorruptionIndicator = False, FLAGS_disable_events = True,
      files = (\<lambda>p. None)(''/db'' := Some \<lparr>img_verdict = io_error, img_content = []\<rparr>),
      unreadable = [], unremovable = [], unmovable = [], unchmodable = [],
      calls = [COpen ''/db'' io_error],
      hostlog = [(INFO, ''Rocksdb open failed (5:0) IO error: /db/000003.log: No space left on device'')]\<rparr>"
  by (simp add: degraded_def damaged_def cfg0_def fresh_def lifecycle_defs io_error_def dec.simps)

lemma reopened_eq:
  "reopened =
     \<lparr>initialized = True, logger = True,
      column_families = [''default'', ''configurations'', ''queries'', ''events'', ''logs'', ''carves''],
      path = ''/db'',
      handles = [CFHandle 0 ''default'', CFHandle 1 ''configurations'', CFHandle 2 ''queries'',
                 CFHandle 3 ''events'', CFHandle 4 ''logs'', CFHandle 5 ''carves''],
      db = Some \<lparr>db_path = ''/db'',
                  families = [(''default'', []), (''configurations'', []), (''queries'', []),
                              (''events'', []), (''logs'', []), (''carves'', [])]\<rparr>,
      read_only = True, kRocksDBCorruptionIndicator = False, FLAGS_disable_events = True,
      files = (\<lambda>p. None)(''/db'' := Some \<lparr>img_verdict = rs_OK, img_content = []\<rparr>),
      unreadable = [], unremovable = [], unmovable = [], unchmodable = [],
      calls = [COpen ''/db'' io_error, COpen ''/db'' rs_OK],
      hostlog = [(INFO, ''Rocksdb open failed (5:0) IO error: /db/000003.log: No space left on device'')]\<rparr>"
  by (simp add: reopened_def degraded_eq cfg0_def lifecycle_defs rs_OK_def)


subsection \<open>Reading results\<close>

lemma surfaced_Inr [simp]: "surfaced (Inr (st, s)) = Inr st"
  by (simp add: surfaced_def)

lemma issued_Inr [simp]: "issued (Inr (st, s)) = Inr (calls s)"
  by (simp add: issued_def)

subsection \<open>Writes in read-only mode\<close>

text \<open>
  C3, amended. In read-only mode \<open>putBatch\<close>, \<open>put\<close>, \<open>remove\<close> and \<open>removeRange\<close> return
  success and the state they return is the state they were given, for every domain
  name, known or not. A \<open>get\<close> after such a write therefore runs on that same state: it
  returns the "Database not opened" error when the degraded engine has no store
  handle, and the engine's NotFound when the store is open, the domain resolves and the
  key is not in the store.
\<close>

theorem C3_read_only_writes:
  assumes "read_only s"
  shows "putBatch cfg v s domain data = Inr (Status 0 ''Database in readonly mode'', s)
       \<and> put cfg v s domain key val = Inr (Status 0 ''Database in readonly mode'', s)
       \<and> remove_op cfg v s domain key = Inr (Status 0 ''Database in readonly mode'', s)
       \<and> removeRange cfg v v2 s domain low high = Inr (Status 0 ''Database in readonly mode'', s)
       \<and> (db s = None \<longrightarrow> get cfg gv s domain key = Inr (Status 1 ''Database not opened'', None))
       \<and> (\<forall>d cfh. db s = Some d \<and> getHandleForColumnFamily cfg s domain = Inr (Some cfh)
              \<and> map_of (cf_data d cfh) key = None \<and> rs_ok gv
            \<longrightarrow> get cfg gv s domain key = Inr (Status 1 ''NotFound: '', None))"
  using assms
  by (simp add: putBatch_def put_def remove_op_def removeRange_def get_def db_Get_def
      rs_NotFound_def)

theorem C3_witness:
  "putBatch cfg0 rs_OK degraded ''no such domain'' [(''k'', ''v'')]
     = Inr (Status 0 ''Database in readonly mode'', degraded)
   \<and> remove_op cfg0 rs_OK degraded ''queries'' ''k''
     = Inr (Status 0 ''Database in readonly mode'', degraded)
   \<and> removeRange cfg0 rs_OK rs_OK degraded ''queries'' ''a'' ''c''
     = Inr (Status 0 ''Database in readonly mode'', degraded)
   \<and> put cfg0 rs_OK reopened ''queries'' ''k'' ''v''
     = Inr (Status 0 ''Database in readonly mode'', reopened)
   \<and> get cfg0 rs_OK reopened ''queries'' ''k'' = Inr (Status 1 ''NotFound: '', None)"
proof -
  have ro: "read_only degraded" "read_only reopened"
    by (simp_all add: degraded_eq reopened_eq)
  have "db reopened = Some \<lparr>db_path = ''/db'',
                  families = [(''default'', []), (''configurations'', []), (''queries'', []),
                              (''events'', []), (''logs'', []), (''carves'', [])]\<rparr>"
    by (simp add: reopened_eq)
  moreover have "getHandleForColumnFamily cfg0 reopened ''queries'' = Inr (Some (CFHandle 1 ''configurations''))"
    by (simp add: reopened_eq cfg0_def getHandleForColumnFamily_def)
  moreover have "map_of (cf_data \<lparr>db_path = ''/db'',
                  families = [(''default'', []), (''configurations'', []), (''queries'', []),
                              (''events'', []), (''logs'', []), (''carves'', [])]\<rparr> (CFHandle 1 ''configurations'')) ''k'' = None"
    by (simp add: cf_data_def)
  moreover have "rs_ok rs_OK"
    by (simp add: rs_ok_def rs_OK_def)
  ultimately show ?thesis
    using C3_read_only_writes [OF ro(1), of cfg0 rs_OK "''no such domain''" "[(''k'', ''v'')]"]
      C3_read_only_writes [OF ro(1), of cfg0 rs_OK "''queries''" "[]" "''k''" "''v''" rs_OK "''a''" "''c''"]
      C3_read_only_writes [OF ro(2), of cfg0 rs_OK "''queries''" "[]" "''k''" "''v''" rs_OK "''a''" "''c''" rs_OK]
    by simp
qed

text \<open>
  The claim as stated has the \<open>get\<close> after a read-only write return NotFound. In the
  read-only state that \<open>setUp\<close> itself leaves after a failed open there is no store
  handle, and \<open>get\<close> returns the "Database not opened" error instead.
\<close>

theorem C3_counterexample:
  "read_only degraded
   \<and> put cfg0 rs_OK degraded ''queries'' ''k'' ''v'' = Inr (Status 0 ''Database in readonly mode'', degraded)
   \<and> get cfg0 rs_OK degraded ''queries'' ''k'' = Inr (Status 1 ''Database not opened'', None)
   \<and> get cfg0 rs_OK degraded ''queries'' ''k'' \<noteq> Inr (Status (int (rs_code rs_NotFound)) (rs_text rs_NotFound), None)"
  by (simp add: degraded_eq put_def putBatch_def get_def rs_NotFound_def)

subsection \<open>Write options\<close>

lemma put_options_eq:
  "put_options cfg domain = \<lparr>sync = (domain \<noteq> kEvents cfg), disableWAL = (domain = kEvents cfg)\<rparr>"
  by (auto simp: put_options_def WriteOptions_def)

lemma delete_options_eq:
  "delete_options cfg domain = \<lparr>sync = (domain \<noteq> kEvents cfg), disableWAL = False\<rparr>"
  by (auto simp: delete_options_def WriteOptions_def)

lemma db_Write_status: "fst (db_Write v batch d) = v"
  by (simp add: db_Write_def)

lemma db_Delete_status: "fst (db_Delete v h k d) = v"
  by (simp add: db_Delete_def)

lemma db_DeleteRange_status: "fst (db_DeleteRange v h low high d) = v"
  by (simp add: db_DeleteRange_def)

lemma putBatch_returns:
  assumes "\<not> read_only s" and "db s = Some d"
    and "getHandleForColumnFamily cfg s domain = Inr (Some cfh)"
    and "write_status v = Inr status"
  shows "putBatch cfg v s domain data =
           Inr (status, s\<lparr>db := Some (snd (db_Write v (map (\<lambda>p. (cfh, fst p, snd p)) data) d)),
                           calls := calls s @ [CWrite (put_options cfg domain)
                                                 (map (\<lambda>p. (cfh, fst p, snd p)) data) v]\<rparr>)"
  using assms by (simp add: putBatch_def Let_def db_Write_def)

lemma remove_op_returns:
  assumes "\<not> read_only s" and "db s = Some d"
    and "getHandleForColumnFamily cfg s domain = Inr (Some cfh)"
  shows "remove_op cfg v s domain key =
           Inr (Status (int (rs_code v)) (rs_text v),
                s\<lparr>db := Some (snd (db_Delete v cfh key d)),
                  calls := calls s @ [CDelete (delete_options cfg domain) cfh key v]\<rparr>)"
  using assms by (simp add: remove_op_def Let_def db_Delete_def)

lemma removeRange_returns:
  assumes "\<not> read_only s" and "db s = Some d"
    and "getHandleForColumnFamily cfg s domain = Inr (Some cfh)"
  shows "removeRange cfg v1 v2 s domain low high =
           (if low \<le> high
            then Inr (Status (int (rs_code v2)) (rs_text v2),
                      s\<lparr>db := Some (snd (db_Delete v2 cfh high (snd (db_DeleteRange v1 cfh low high d)))),
                        calls := calls s @ [CDeleteRange (delete_options cfg domain) cfh low high v1,
                                            CDelete (delete_options cfg domain) cfh high v2]\<rparr>)
            else Inr (Status (int (rs_code v1)) (rs_text v1),
                      s\<lparr>db := Some (snd (db_DeleteRange v1 cfh low high d)),
                        calls := calls s @ [CDeleteRange (delete_options cfg domain) cfh low high v1]\<rparr>))"
  using assms by (simp add: removeRange_def Let_def db_Delete_def db_DeleteRange_def)

text \<open>
  C4, amended. On a writable, open engine and a domain that resolves, the write options
  of a commit depend on the operation and the domain name only. \<open>putBatch\<close> commits the
  event domain with the write-ahead log bypassed and no sync, every other domain with
  sync and the log in use. \<open>remove\<close> and \<open>removeRange\<close> (both of its commits) never bypass
  the log: they commit the event domain with neither sync nor bypass, every other
  domain with sync.
\<close>

theorem C4_durability_modes:
  assumes "\<not> read_only s" and "db s = Some d"
    and "getHandleForColumnFamily cfg s domain = Inr (Some cfh)"
  shows "(\<forall>status. write_status v = Inr status \<longrightarrow>
            issued (putBatch cfg v s domain data) =
              Inr (calls s @ [CWrite \<lparr>sync = (domain \<noteq> kEvents cfg), disableWAL = (domain = kEvents cfg)\<rparr>
                                (map (\<lambda>p. (cfh, fst p, snd p)) data) v]))
       \<and> issued (remove_op cfg v s domain key) =
              Inr (calls s @ [CDelete \<lparr>sync = (domain \<noteq> kEvents cfg), disableWAL = False\<rparr> cfh key v])
       \<and> issued (removeRange cfg v v2 s domain low high) =
              Inr (calls s @ CDeleteRange \<lparr>sync = (domain \<noteq> kEvents cfg), disableWAL = False\<rparr> cfh low high v
                     # (if low \<le> high
                        then [CDelete \<lparr>sync = (domain \<noteq> kEvents cfg), disableWAL = False\<rparr> cfh high v2]
                        else []))"
proof -
  have a: "issued (putBatch cfg v s domain data) =
              Inr (calls s @ [CWrite \<lparr>sync = (domain \<noteq> kEvents cfg), disableWAL = (domain = kEvents cfg)\<rparr>
                                (map (\<lambda>p. (cfh, fst p, snd p)) data) v])"
    if "write_status v = Inr status" for status
    using putBatch_returns [OF assms that, of "data"] by (simp add: put_options_eq)
  have b: "issued (remove_op cfg v s domain key) =
              Inr (calls s @ [CDelete \<lparr>sync = (domain \<noteq> kEvents cfg), disableWAL = False\<rparr> cfh key v])"
    using remove_op_returns [OF assms, of v key] by (simp add: delete_options_eq)
  have c: "issued (removeRange cfg v v2 s domain low high) =
              Inr (calls s @ CDeleteRange \<lparr>sync = (domain \<noteq> kEvents cfg), disableWAL = False\<rparr> cfh low high v
                     # (if low \<le> high
                        then [CDelete \<lparr>sync = (domain \<noteq> kEvents cfg), disableWAL = False\<rparr> cfh high v2]
                        else []))"
    using removeRange_returns [OF assms, of v v2 low high] by (simp add: delete_options_eq)
  from a b c show ?thesis by blast
qed

lemma router_opened:
  "getHandleForColumnFamily cfg0 opened ''configurations'' = Inr (Some (CFHandle 0 ''default''))"
  "getHandleForColumnFamily cfg0 opened ''queries'' = Inr (Some (CFHandle 1 ''configurations''))"
  "getHandleForColumnFamily cfg0 opened ''events'' = Inr (Some (CFHandle 2 ''queries''))"
  by (simp_all add: opened_eq cfg0_def getHandleForColumnFamily_def)

lemma opened_writable:
  "\<not> read_only opened"
  "db opened = Some \<lparr>db_path = ''/db'',
                  families = [(''default'', []), (''configurations'', []), (''queries'', []),
                              (''events'', []), (''logs'', []), (''carves'', [])]\<rparr>"
  "calls opened = [COpen ''/db'' rs_OK]"
  by (simp_all add: opened_eq)

lemma write_status_OK: "write_status rs_OK = Inr (Status 0 ''OK'')"
  by (simp add: write_status_def rs_OK_def)

theorem C4_witness:
  "issued (putBatch cfg0 rs_OK opened ''events'' [(''k'', ''v'')]) =
     Inr [COpen ''/db'' rs_OK,
          CWrite \<lparr>sync = False, disableWAL = True\<rparr> [(CFHandle 2 ''queries'', ''k'', ''v'')] rs_OK]
   \<and> issued (putBatch cfg0 rs_OK opened ''queries'' [(''k'', ''v'')]) =
     Inr [COpen ''/db'' rs_OK,
          CWrite \<lparr>sync = True, disableWAL = False\<rparr> [(CFHandle 1 ''configurations'', ''k'', ''v'')] rs_OK]
   \<and> issued (removeRange cfg0 rs_OK rs_OK opened ''queries'' ''a'' ''c'') =
     Inr [COpen ''/db'' rs_OK,
          CDeleteRange \<lparr>sync = True, disableWAL = False\<rparr> (CFHandle 1 ''configurations'') ''a'' ''c'' rs_OK,
          CDelete \<lparr>sync = True, disableWAL = False\<rparr> (CFHandle 1 ''configurations'') ''c'' rs_OK]"
  using C4_durability_modes [OF opened_writable(1,2) router_opened(3), of rs_OK "[(''k'', ''v'')]"]
    C4_durability_modes [OF opened_writable(1,2) router_opened(2), of rs_OK "[(''k'', ''v'')]" "''k''" rs_OK "''a''" "''c''"]
  by (simp add: write_status_OK opened_writable(3) cfg0_def)

text \<open>
  The claim as stated has every commit on the event domain bypass the write-ahead
  log. The delete that \<open>remove\<close> issues for the event domain does not.
\<close>

theorem C4_counterexample:
  "kEvents cfg0 = ''events''
   \<and> issued (remove_op cfg0 rs_OK opened ''events'' ''k'') =
       Inr [COpen ''/db'' rs_OK,
            CDelete \<lparr>sync = False, disableWAL = False\<rparr> (CFHandle 2 ''queries'') ''k'' rs_OK]"
  using remove_op_returns [OF opened_writable(1,2) router_opened(3), of rs_OK "''k''"]
  by (simp add: opened_writable(3) delete_options_eq cfg0_def)

subsection \<open>The status of a failed commit\<close>

lemma find_last_of_bound: "find_last_of s ch = Some i \<Longrightarrow> i < length s \<and> s ! i = ch"
  by (induction s arbitrary: i) (auto split: option.splits if_splits)

lemma find_last_of_None: "find_last_of s ch = None \<longleftrightarrow> ch \<notin> set s"
  by (induction s) (auto split: option.splits)

lemma find_last_of_last: "find_last_of s ch = Some i \<Longrightarrow> ch \<notin> set (drop (Suc i) s)"
proof (induction s arbitrary: i)
  case Nil
  then show ?case by simp
next
  case (Cons c cs)
  show ?case
  proof (cases "find_last_of cs ch")
    case None
    with Cons.prems have "i = 0" by (simp split: if_splits)
    with None show ?thesis by (simp add: find_last_of_None)
  next
    case (Some j)
    with Cons.prems have "i = Suc j" by simp
    with Some Cons.IH [of j] show ?thesis by simp
  qed
qed

lemma write_status_io:
  assumes "rs_code v \<noteq> 0" and "IsIOError v"
    and "find_last_of (rs_text v) (CHR '':'') = Some pos" and "pos + 2 \<le> length (rs_text v)"
  shows "write_status v = Inr (Status (int (rs_code v)) (''IOError: '' @ drop (pos + 2) (rs_text v)))"
  using assms by (simp add: write_status_def substr_def)

lemma write_status_other:
  "\<not> IsIOError v \<Longrightarrow> write_status v = Inr (Status (int (rs_code v)) (rs_text v))"
  by (simp add: write_status_def)

text \<open>
  C8, amended. Of the three write operations only \<open>putBatch\<close> trims the message of a
  failed commit. For an I/O-class failure whose text has a colon with at least one
  character after it, \<open>putBatch\<close> returns the engine's code and the message "IOError: "
  followed by what stands after the last colon and the character next to it: the text
  up to that colon is dropped, and the rest, which has no colon in it, is passed on as
  it is. For a status of another class \<open>putBatch\<close> returns the engine's code and full
  text. \<open>remove\<close> returns the code and full text of the status of its commit, whatever
  its class. \<open>removeRange\<close> returns the code and full text of the status of its range
  delete when \<open>high < low\<close>, and of its point delete when \<open>low \<le> high\<close> and the range
  delete succeeded.
\<close>

theorem C8_failed_commit_status:
  assumes "\<not> read_only s" and "db s = Some d"
    and "getHandleForColumnFamily cfg s domain = Inr (Some cfh)"
  shows "(\<forall>pos. IsIOError v \<and> find_last_of (rs_text v) (CHR '':'') = Some pos
                \<and> pos + 2 \<le> length (rs_text v) \<longrightarrow>
            surfaced (putBatch cfg v s domain data) =
              Inr (Status (int (rs_code v)) (''IOError: '' @ drop (pos + 2) (rs_text v)))
            \<and> CHR '':'' \<notin> set (drop (pos + 2) (rs_text v)))
       \<and> (\<not> IsIOError v \<longrightarrow>
            surfaced (putBatch cfg v s domain data) = Inr (Status (int (rs_code v)) (rs_text v)))
       \<and> surfaced (remove_op cfg v s domain key) = Inr (Status (int (rs_code v)) (rs_text v))
       \<and> (high < low \<longrightarrow>
            surfaced (removeRange cfg v1 v2 s domain low high) =
              Inr (Status (int (rs_code v1)) (rs_text v1)))
       \<and> (low \<le> high \<and> rs_ok v1 \<longrightarrow>
            surfaced (removeRange cfg v1 v2 s domain low high) =
              Inr (Status (int (rs_code v2)) (rs_text v2)))"
proof -
  have a: "surfaced (putBatch cfg v s domain data) =
              Inr (Status (int (rs_code v)) (''IOError: '' @ drop (pos + 2) (rs_text v)))
            \<and> CHR '':'' \<notin> set (drop (pos + 2) (rs_text v))"
    if h: "IsIOError v \<and> find_last_of (rs_text v) (CHR '':'') = Some pos
                \<and> pos + 2 \<le> length (rs_text v)" for pos
  proof -
    from h have "rs_code v \<noteq> 0" by (simp add: IsIOError_def)
    then have "write_status v =
            Inr (Status (int (rs_code v)) (''IOError: '' @ drop (pos + 2) (rs_text v)))"
      using h by (simp add: write_status_io)
    from putBatch_returns [OF assms this, of "data"]
    have 1: "surfaced (putBatch cfg v s domain data) =
              Inr (Status (int (rs_code v)) (''IOError: '' @ drop (pos + 2) (rs_text v)))"
      by simp
    have "CHR '':'' \<notin> set (drop (Suc pos) (rs_text v))"
      using h by (simp add: find_last_of_last)
    then have "CHR '':'' \<notin> set (drop 1 (drop (Suc pos) (rs_text v)))"
      by (meson in_set_dropD)
    then have 2: "CHR '':'' \<notin> set (drop (pos + 2) (rs_text v))"
      by simp
    from 1 2 show ?thesis by simp
  qed
  have b: "surfaced (putBatch cfg v s domain data) = Inr (Status (int (rs_code v)) (rs_text v))"
    if "\<not> IsIOError v"
    using putBatch_returns [OF assms write_status_other [OF that], of "data"] by simp
  have c: "surfaced (remove_op cfg v s domain key) = Inr (Status (int (rs_code v)) (rs_text v))"
    using remove_op_returns [OF assms, of v key] by simp
  have e1: "surfaced (removeRange cfg v1 v2 s domain low high) =
              Inr (Status (int (rs_code v1)) (rs_text v1))"
    if "high < low"
  proof -
    from that have "\<not> low \<le> high" by simp
    with removeRange_returns [OF assms, of v1 v2 low high] show ?thesis by simp
  qed
  have e2: "surfaced (removeRange cfg v1 v2 s domain low high) =
              Inr (Status (int (rs_code v2)) (rs_text v2))"
    if "low \<le> high \<and> rs_ok v1"
    using that removeRange_returns [OF assms, of v1 v2 low high] by simp
  from a b c e1 e2 show ?thesis by blast
qed

lemma io_error_last_colon: "find_last_of (rs_text io_error) (CHR '':'') = Some 24"
  by (simp add: io_error_def)

theorem C8_witness:
  "surfaced (putBatch cfg0 io_error opened ''queries'' [(''k'', ''v'')]) =
     Inr (Status 5 ''IOError: No space left on device'')
   \<and> surfaced (putBatch cfg0 rs_NotFound opened ''queries'' [(''k'', ''v'')]) =
     Inr (Status 1 ''NotFound: '')
   \<and> surfaced (remove_op cfg0 rs_NotFound opened ''queries'' ''k'') = Inr (Status 1 ''NotFound: '')
   \<and> surfaced (removeRange cfg0 io_error rs_OK opened ''queries'' ''c'' ''a'') =
     Inr (Status 5 ''IO error: /db/000003.log: No space left on device'')
   \<and> surfaced (removeRange cfg0 rs_OK io_error opened ''queries'' ''a'' ''c'') =
     Inr (Status 5 ''IO error: /db/000003.log: No space left on device'')"
proof -
  have io: "IsIOError io_error" "24 + 2 \<le> length (rs_text io_error)"
    "drop (24 + 2) (rs_text io_error) = ''No space left on device''" "rs_code io_error = 5"
    "rs_text io_error = ''IO error: /db/000003.log: No space left on device''"
    by (simp_all add: io_error_def IsIOError_def)
  have nf: "\<not> IsIOError rs_NotFound" "rs_code rs_NotFound = 1" "rs_text rs_NotFound = ''NotFound: ''"
    by (simp_all add: rs_NotFound_def IsIOError_def)
  have ok: "rs_ok rs_OK"
    by (simp add: rs_ok_def rs_OK_def)
  show ?thesis
    using C8_failed_commit_status [OF opened_writable(1,2) router_opened(2), of io_error "[(''k'', ''v'')]"]
      C8_failed_commit_status [OF opened_writable(1,2) router_opened(2), of rs_NotFound "[(''k'', ''v'')]" "''k''"]
      C8_failed_commit_status [OF opened_writable(1,2) router_opened(2), of rs_OK "[]" "''k''" "''a''" "''c''" io_error rs_OK]
      C8_failed_commit_status [OF opened_writable(1,2) router_opened(2), of rs_OK "[]" "''k''" "''c''" "''a''" rs_OK io_error]
      io io_error_last_colon nf ok
    by simp
qed

text \<open>
  The claim as stated has every failed write or delete commit keep the engine's code
  and lose the engine's file names. \<open>remove\<close> returns the engine's text as it is, file
  name included. \<open>putBatch\<close> passes on what stands after the last colon, which is the
  file name when the engine names the file last. And when the range delete of
  \<open>removeRange\<close> fails and the point delete after it succeeds, the failure is not
  returned at all.
\<close>

theorem C8_counterexample:
  "IsIOError io_error
   \<and> surfaced (remove_op cfg0 io_error opened ''queries'' ''k'') =
       Inr (Status 5 ''IO error: /db/000003.log: No space left on device'')
   \<and> IsIOError io_error_named
   \<and> surfaced (putBatch cfg0 io_error_named opened ''queries'' [(''k'', ''v'')]) =
       Inr (Status 5 ''IOError: /db/000003.log'')
   \<and> surfaced (removeRange cfg0 io_error rs_OK opened ''queries'' ''a'' ''c'') =
       Inr (Status 0 ''OK'')"
proof -
  have "write_status io_error_named = Inr (Status 5 ''IOError: /db/000003.log'')"
    by (simp add: write_status_def io_error_named_def IsIOError_def substr_def)
  from putBatch_returns [OF opened_writable(1,2) router_opened(2) this, of "[(''k'', ''v'')]"]
    remove_op_returns [OF opened_writable(1,2) router_opened(2), of io_error "''k''"]
    removeRange_returns [OF opened_writable(1,2) router_opened(2), of io_error rs_OK "''a''" "''c''"]
  show ?thesis
    by (simp add: io_error_def io_error_named_def IsIOError_def rs_OK_def)
qed

subsection \<open>The engine's column families\<close>

lemma cf_data_update:
  "cf_data (cf_update h f d) h' =
     (if cf_id h' = cf_id h \<and> cf_id h < length (families d) then f (cf_data d h') else cf_data d h')"
  by (auto simp: cf_data_def cf_update_def)

lemma cf_data_update_same: "f [] = [] \<Longrightarrow> cf_data (cf_update h f d) h = f (cf_data d h)"
  by (auto simp: cf_data_def cf_update_def)

lemma kv_delete_empty: "kv_delete k [] = []"
  by (simp add: kv_delete_def)

lemma kv_delete_range_empty: "kv_delete_range low high [] = []"
  by (simp add: kv_delete_range_def)

lemma kv_delete_range_delete:
  "low \<le> high \<Longrightarrow>
   kv_delete high (kv_delete_range low high data) =
     filter (\<lambda>p. \<not> (low \<le> fst p \<and> fst p \<le> high)) data"
  by (auto simp: kv_delete_def kv_delete_range_def in_range_def intro!: filter_cong)

lemma kv_delete_range_degenerate:
  "high < low \<Longrightarrow> kv_delete_range low high data = data"
  by (auto simp: kv_delete_range_def in_range_def intro!: filter_True)

lemma kv_keys_filter: "kv_keys (filter (\<lambda>p. P (fst p)) data) = filter P (kv_keys data)"
  by (simp add: kv_keys_def filter_map comp_def)

text \<open>
  C2. On an open, writable engine and a domain that resolves to the handle \<open>cfh\<close>, with
  the engine carrying out the commits: \<open>removeRange\<close> returns OK; it issues the range
  delete of the half-open range from \<open>low\<close> to \<open>high\<close> and, exactly when \<open>low \<le> high\<close>, one
  point delete of \<open>high\<close> after it; what is left of the domain are the records whose key
  is outside the closed interval from \<open>low\<close> to \<open>high\<close>, and the other column families are
  as before. When \<open>high < low\<close>, whatever the engine answers to the range delete, no
  point delete is issued and no record of the domain is removed.
\<close>

theorem C2_removeRange_inclusive:
  assumes "\<not> read_only s" and "db s = Some d"
    and "getHandleForColumnFamily cfg s domain = Inr (Some cfh)"
  shows "(\<exists>s' d'.
           removeRange cfg rs_OK rs_OK s domain low high = Inr (Status 0 ''OK'', s')
         \<and> db s' = Some d'
         \<and> cf_data d' cfh = filter (\<lambda>p. \<not> (low \<le> fst p \<and> fst p \<le> high)) (cf_data d cfh)
         \<and> kv_keys (cf_data d' cfh) = filter (\<lambda>k. \<not> (low \<le> k \<and> k \<le> high)) (kv_keys (cf_data d cfh))
         \<and> (\<forall>h. cf_id h \<noteq> cf_id cfh \<longrightarrow> cf_data d' h = cf_data d h)
         \<and> calls s' = calls s @ CDeleteRange (delete_options cfg domain) cfh low high rs_OK
                         # (if low \<le> high then [CDelete (delete_options cfg domain) cfh high rs_OK] else []))
       \<and> (high < low \<longrightarrow> (\<exists>s' d'.
           removeRange cfg v1 v2 s domain low high = Inr (Status (int (rs_code v1)) (rs_text v1), s')
         \<and> db s' = Some d' \<and> cf_data d' cfh = cf_data d cfh
         \<and> calls s' = calls s @ [CDeleteRange (delete_options cfg domain) cfh low high v1]))"
proof -
  let ?keep = "\<lambda>p. \<not> (low \<le> fst p \<and> fst p \<le> high)"
  have ok: "rs_ok rs_OK" "int (rs_code rs_OK) = 0" "rs_text rs_OK = ''OK''"
    by (simp_all add: rs_ok_def rs_OK_def)
  have first: "\<exists>s' d'.
           removeRange cfg rs_OK rs_OK s domain low high = Inr (Status 0 ''OK'', s')
         \<and> db s' = Some d'
         \<and> cf_data d' cfh = filter ?keep (cf_data d cfh)
         \<and> kv_keys (cf_data d' cfh) = filter (\<lambda>k. \<not> (low \<le> k \<and> k \<le> high)) (kv_keys (cf_data d cfh))
         \<and> (\<forall>h. cf_id h \<noteq> cf_id cfh \<longrightarrow> cf_data d' h = cf_data d h)
         \<and> calls s' = calls s @ CDeleteRange (delete_options cfg domain) cfh low high rs_OK
                         # (if low \<le> high then [CDelete (delete_options cfg domain) cfh high rs_OK] else [])"
  proof (cases "low \<le> high")
    case True
    let ?d' = "cf_update cfh (kv_delete high) (cf_update cfh (kv_delete_range low high) d)"
    have "cf_data ?d' cfh = kv_delete high (kv_delete_range low high (cf_data d cfh))"
      by (simp add: cf_data_update_same kv_delete_empty kv_delete_range_empty)
    then have data: "cf_data ?d' cfh = filter ?keep (cf_data d cfh)"
      using True by (simp add: kv_delete_range_delete)
    have keys: "kv_keys (cf_data ?d' cfh) = filter (\<lambda>k. \<not> (low \<le> k \<and> k \<le> high)) (kv_keys (cf_data d cfh))"
      unfolding data by (rule kv_keys_filter)
    have others: "\<forall>h. cf_id h \<noteq> cf_id cfh \<longrightarrow> cf_data ?d' h = cf_data d h"
      by (simp add: cf_data_update)
    show ?thesis
      using True data keys others removeRange_returns [OF assms, of rs_OK rs_OK low high]
      by (simp add: ok db_Delete_def db_DeleteRange_def)
  next
    case False
    then have lt: "high < low" by simp
    let ?d' = "cf_update cfh (kv_delete_range low high) d"
    have "filter ?keep (cf_data d cfh) = cf_data d cfh"
      using lt by (auto intro!: filter_True)
    then have data: "cf_data ?d' cfh = filter ?keep (cf_data d cfh)"
      using lt by (simp add: cf_data_update_same kv_delete_range_degenerate kv_delete_range_empty)
    have keys: "kv_keys (cf_data ?d' cfh) = filter (\<lambda>k. \<not> (low \<le> k \<and> k \<le> high)) (kv_keys (cf_data d cfh))"
      unfolding data by (rule kv_keys_filter)
    have others: "\<forall>h. cf_id h \<noteq> cf_id cfh \<longrightarrow> cf_data ?d' h = cf_data d h"
      by (simp add: cf_data_update)
    show ?thesis
      using False data keys others removeRange_returns [OF assms, of rs_OK rs_OK low high]
      by (simp add: ok db_DeleteRange_def)
  qed
  have second: "high < low \<longrightarrow> (\<exists>s' d'.
           removeRange cfg v1 v2 s domain low high = Inr (Status (int (rs_code v1)) (rs_text v1), s')
         \<and> db s' = Some d' \<and> cf_data d' cfh = cf_data d cfh
         \<and> calls s' = calls s @ [CDeleteRange (delete_options cfg domain) cfh low high v1])"
  proof
    assume lt: "high < low"
    then have nle: "\<not> low \<le> high" by simp
    have "cf_data (snd (db_DeleteRange v1 cfh low high d)) cfh = cf_data d cfh"
      using lt by (simp add: db_DeleteRange_def cf_data_update_same kv_delete_range_degenerate kv_delete_range_empty)
    then show "\<exists>s' d'.
           removeRange cfg v1 v2 s domain low high = Inr (Status (int (rs_code v1)) (rs_text v1), s')
         \<and> db s' = Some d' \<and> cf_data d' cfh = cf_data d cfh
         \<and> calls s' = calls s @ [CDeleteRange (delete_options cfg domain) cfh low high v1]"
      using nle removeRange_returns [OF assms, of v1 v2 low high] by simp
  qed
  from first second show ?thesis by (rule conjI)
qed

lemma state_of_Inr [simp]: "state_of (Inr (st, s)) = s"
  by (simp add: state_of_def)

lemma abcd_eq:
  "abcd = opened\<lparr>db := Some \<lparr>db_path = ''/db'',
                  families = [(''default'', []),
                              (''configurations'', [(''a'', ''1''), (''b'', ''2''), (''c'', ''3''), (''d'', ''4'')]),
                              (''queries'', []), (''events'', []), (''logs'', []), (''carves'', [])]\<rparr>,
                 calls := [COpen ''/db'' rs_OK,
                           CWrite \<lparr>sync = True, disableWAL = False\<rparr>
                             [(CFHandle 1 ''configurations'', ''c'', ''3''),
                              (CFHandle 1 ''configurations'', ''a'', ''1''),
                              (CFHandle 1 ''configurations'', ''d'', ''4''),
                              (CFHandle 1 ''configurations'', ''b'', ''2'')] rs_OK]\<rparr>"
  unfolding abcd_def
  using putBatch_returns [OF opened_writable(1,2) router_opened(2) write_status_OK,
      of "[(''c'', ''3''), (''a'', ''1''), (''d'', ''4''), (''b'', ''2'')]"]
  by (simp add: opened_writable(3) put_options_eq cfg0_def db_Write_def rs_ok_def rs_OK_def
      cf_update_def)

lemma abcd_facts:
  "\<not> read_only abcd"
  "db abcd = Some \<lparr>db_path = ''/db'',
                  families = [(''default'', []),
                              (''configurations'', [(''a'', ''1''), (''b'', ''2''), (''c'', ''3''), (''d'', ''4'')]),
                              (''queries'', []), (''events'', []), (''logs'', []), (''carves'', [])]\<rparr>"
  "getHandleForColumnFamily cfg0 abcd ''queries'' = Inr (Some (CFHandle 1 ''configurations''))"
  "stored_keys abcd (CFHandle 1 ''configurations'') = [''a'', ''b'', ''c'', ''d'']"
  by (simp_all add: abcd_eq opened_eq cfg0_def getHandleForColumnFamily_def stored_keys_def
      cf_data_def kv_keys_def)

theorem C2_witness:
  "stored_keys abcd (CFHandle 1 ''configurations'') = [''a'', ''b'', ''c'', ''d'']
   \<and> surfaced (removeRange cfg0 rs_OK rs_OK abcd ''queries'' ''a'' ''c'') = Inr (Status 0 ''OK'')
   \<and> stored_keys (state_of (removeRange cfg0 rs_OK rs_OK abcd ''queries'' ''a'' ''c''))
        (CFHandle 1 ''configurations'') = [''d'']
   \<and> stored_keys (state_of (removeRange cfg0 rs_OK rs_OK abcd ''queries'' ''c'' ''a''))
        (CFHandle 1 ''configurations'') = [''a'', ''b'', ''c'', ''d'']"
proof -
  let ?h = "CFHandle 1 ''configurations''"
  let ?D = "\<lparr>db_path = ''/db'',
             families = [(''default'', []),
                         (''configurations'', [(''a'', ''1''), (''b'', ''2''), (''c'', ''3''), (''d'', ''4'')]),
                         (''queries'', []), (''events'', []), (''logs'', []), (''carves'', [])]\<rparr>"
  have keys: "kv_keys (cf_data ?D ?h) = [''a'', ''b'', ''c'', ''d'']"
    by (simp add: cf_data_def kv_keys_def)
  from C2_removeRange_inclusive [OF abcd_facts(1,2,3), of "''a''" "''c''"]
  obtain s1 d1 where r1: "removeRange cfg0 rs_OK rs_OK abcd ''queries'' ''a'' ''c'' = Inr (Status 0 ''OK'', s1)"
    and d1: "db s1 = Some d1"
    and k1: "kv_keys (cf_data d1 ?h) = filter (\<lambda>k. \<not> (''a'' \<le> k \<and> k \<le> ''c'')) (kv_keys (cf_data ?D ?h))"
    by blast
  from C2_removeRange_inclusive [OF abcd_facts(1,2,3), of "''c''" "''a''"]
  obtain s2 d2 where r2: "removeRange cfg0 rs_OK rs_OK abcd ''queries'' ''c'' ''a'' = Inr (Status 0 ''OK'', s2)"
    and d2: "db s2 = Some d2"
    and k2: "kv_keys (cf_data d2 ?h) = filter (\<lambda>k. \<not> (''c'' \<le> k \<and> k \<le> ''a'')) (kv_keys (cf_data ?D ?h))"
    by blast
  have "stored_keys (state_of (removeRange cfg0 rs_OK rs_OK abcd ''queries'' ''a'' ''c'')) ?h = [''d'']"
    unfolding r1 using d1 k1 keys by (simp add: stored_keys_def)
  moreover have "stored_keys (state_of (removeRange cfg0 rs_OK rs_OK abcd ''queries'' ''c'' ''a'')) ?h
      = [''a'', ''b'', ''c'', ''d'']"
    unfolding r2 using d2 k2 keys by (simp add: stored_keys_def)
  moreover have "surfaced (removeRange cfg0 rs_OK rs_OK abcd ''queries'' ''a'' ''c'') = Inr (Status 0 ''OK'')"
    unfolding r1 by simp
  ultimately show ?thesis
    using abcd_facts(4) by simp
qed

subsection \<open>Key order in a column family\<close>

lemma kv_keys_Nil: "kv_keys [] = []"
  by (simp add: kv_keys_def)

lemma kv_keys_Cons: "kv_keys (p # data) = fst p # kv_keys data"
  by (simp add: kv_keys_def)

lemma kv_keys_put: "set (kv_keys (kv_put k v data)) = insert k (set (kv_keys data))"
proof (induction data)
  case Nil
  show ?case by (simp add: kv_keys_Nil kv_keys_Cons)
next
  case (Cons p rest)
  obtain k' v' where p: "p = (k', v')" by (cases p)
  from Cons.IH show ?case
    by (simp add: kv_keys_Cons p insert_commute)
qed

lemma kv_wf_put: "kv_wf data \<Longrightarrow> kv_wf (kv_put k v data)"
proof (induction data)
  case Nil
  then show ?case by (simp add: kv_wf_def kv_keys_def)
next
  case (Cons p rest)
  obtain k' v' where p: "p = (k', v')" by (cases p)
  from Cons.prems have rest: "kv_wf rest" and above: "\<forall>x \<in> set (kv_keys rest). k' < x"
    by (simp_all add: kv_wf_def kv_keys_def p)
  show ?case
  proof (cases "k < k'")
    case True
    with Cons.prems above show ?thesis
      by (auto simp: kv_wf_def kv_keys_def p)
  next
    case False
    show ?thesis
    proof (cases "k = k'")
      case True
      with Cons.prems show ?thesis by (simp add: kv_wf_def kv_keys_def p)
    next
      case ne: False
      with False have "k' < k" by simp
      with above have "\<forall>x \<in> set (kv_keys (kv_put k v rest)). k' < x"
        by (simp add: kv_keys_put)
      with Cons.IH [OF rest] False ne show ?thesis
        by (simp add: kv_wf_def kv_keys_def p)
    qed
  qed
qed

lemma kv_wf_delete: "kv_wf data \<Longrightarrow> kv_wf (kv_delete k data)"
  by (simp add: kv_wf_def kv_delete_def kv_keys_filter [of "\<lambda>x. x \<noteq> k"] sorted_wrt_filter)

lemma kv_wf_delete_range: "kv_wf data \<Longrightarrow> kv_wf (kv_delete_range low high data)"
  by (simp add: kv_wf_def kv_delete_range_def kv_keys_filter [of "\<lambda>x. \<not> in_range low high x"]
      sorted_wrt_filter)

subsection \<open>Prefix scan\<close>

lemma scan_returns:
  assumes "db s = Some d" and "getHandleForColumnFamily cfg s domain = Inr (Some cfh)"
  shows "scan cfg True s domain results P L =
           Inr (Status 0 ''OK'',
                results @ (if L = 0 then filter (prefix P) (kv_keys (cf_data d cfh))
                           else take L (filter (prefix P) (kv_keys (cf_data d cfh)))))"
proof -
  have "L = 0 \<or> 0 < L" by auto
  then have "scan_loop P L (kv_keys (cf_data d cfh)) 0 results =
          results @ (if L = 0 then filter (prefix P) (kv_keys (cf_data d cfh))
                     else take (L - 0) (filter (prefix P) (kv_keys (cf_data d cfh))))"
    by (rule scan_loop_eq)
  with assms show ?thesis
    by (simp add: scan_def db_NewIterator_def)
qed

text \<open>
  C5. On an open engine and a domain that resolves to the handle \<open>cfh\<close>, when the engine
  hands out an iterator: \<open>scan\<close> returns OK, whatever the number of matches, and appends
  to \<open>results\<close> the keys under the handle that start with the prefix, in the order of
  the store, all of them when the limit is 0 and the first \<open>L\<close> of them otherwise. The
  store keeps its keys ascending, so the appended keys are ascending too.
\<close>

theorem C5_scan_prefix_limit:
  assumes "db s = Some d" and "getHandleForColumnFamily cfg s domain = Inr (Some cfh)"
  shows "scan cfg True s domain results P L =
           Inr (Status 0 ''OK'',
                results @ (if L = 0 then filter (prefix P) (kv_keys (cf_data d cfh))
                           else take L (filter (prefix P) (kv_keys (cf_data d cfh)))))
       \<and> (kv_wf (cf_data d cfh) \<longrightarrow>
            sorted_wrt (<) (if L = 0 then filter (prefix P) (kv_keys (cf_data d cfh))
                            else take L (filter (prefix P) (kv_keys (cf_data d cfh)))))"
proof -
  have "sorted_wrt (<) (if L = 0 then filter (prefix P) (kv_keys (cf_data d cfh))
                            else take L (filter (prefix P) (kv_keys (cf_data d cfh))))"
    if "kv_wf (cf_data d cfh)"
  proof -
    from that have "sorted_wrt (<) (filter (prefix P) (kv_keys (cf_data d cfh)))"
      by (simp add: kv_wf_def sorted_wrt_filter)
    then show ?thesis
      by (simp add: sorted_wrt_take)
  qed
  with scan_returns [OF assms] show ?thesis by blast
qed

lemma a123b1_eq:
  "a123b1 = opened\<lparr>db := Some \<lparr>db_path = ''/db'',
                  families = [(''default'', []),
                              (''configurations'', [(''a1'', ''x''), (''a2'', ''y''), (''a3'', ''z''), (''b1'', ''w'')]),
                              (''queries'', []), (''events'', []), (''logs'', []), (''carves'', [])]\<rparr>,
                 calls := [COpen ''/db'' rs_OK,
                           CWrite \<lparr>sync = True, disableWAL = False\<rparr>
                             [(CFHandle 1 ''configurations'', ''b1'', ''w''),
                              (CFHandle 1 ''configurations'', ''a3'', ''z''),
                              (CFHandle 1 ''configurations'', ''a1'', ''x''),
                              (CFHandle 1 ''configurations'', ''a2'', ''y'')] rs_OK]\<rparr>"
  unfolding a123b1_def
  using putBatch_returns [OF opened_writable(1,2) router_opened(2) write_status_OK,
      of "[(''b1'', ''w''), (''a3'', ''z''), (''a1'', ''x''), (''a2'', ''y'')]"]
  by (simp add: opened_writable(3) put_options_eq cfg0_def db_Write_def rs_ok_def rs_OK_def
      cf_update_def)

lemma a123b1_facts:
  "db a123b1 = Some \<lparr>db_path = ''/db'',
                  families = [(''default'', []),
                              (''configurations'', [(''a1'', ''x''), (''a2'', ''y''), (''a3'', ''z''), (''b1'', ''w'')]),
                              (''queries'', []), (''events'', []), (''logs'', []), (''carves'', [])]\<rparr>"
  "getHandleForColumnFamily cfg0 a123b1 ''queries'' = Inr (Some (CFHandle 1 ''configurations''))"
  by (simp_all add: a123b1_eq opened_eq cfg0_def getHandleForColumnFamily_def)

theorem C5_witness:
  "scan cfg0 True a123b1 ''queries'' [] ''a'' 2 = Inr (Status 0 ''OK'', [''a1'', ''a2''])
   \<and> scan cfg0 True a123b1 ''queries'' [] ''a'' 5 = Inr (Status 0 ''OK'', [''a1'', ''a2'', ''a3''])
   \<and> scan cfg0 True a123b1 ''queries'' [] ''c'' 5 = Inr (Status 0 ''OK'', [])
   \<and> scan cfg0 True a123b1 ''queries'' [] [] 0 = Inr (Status 0 ''OK'', [''a1'', ''a2'', ''a3'', ''b1''])
   \<and> sorted_wrt (<) [''a1'', ''a2'', ''a3'', ''b1'']"
proof -
  let ?D = "\<lparr>db_path = ''/db'',
             families = [(''default'', []),
                         (''configurations'', [(''a1'', ''x''), (''a2'', ''y''), (''a3'', ''z''), (''b1'', ''w'')]),
                         (''queries'', []), (''events'', []), (''logs'', []), (''carves'', [])]\<rparr>"
  have keys: "kv_keys (cf_data ?D (CFHandle 1 ''configurations'')) = [''a1'', ''a2'', ''a3'', ''b1'']"
    by (simp add: cf_data_def kv_keys_def)
  have wf: "kv_wf (cf_data ?D (CFHandle 1 ''configurations''))"
    using keys by (simp add: kv_wf_def)
  show ?thesis
    using C5_scan_prefix_limit [OF a123b1_facts, of "[]" "''a''" 2]
      C5_scan_prefix_limit [OF a123b1_facts, of "[]" "''a''" 5]
      C5_scan_prefix_limit [OF a123b1_facts, of "[]" "''c''" 5]
      C5_scan_prefix_limit [OF a123b1_facts, of "[]" "[]" 0]
      keys wf
    by simp
qed

subsection \<open>The log interceptor\<close>

lemma buffer_level:
  "(vsnprintf_buffer line ! 0 \<noteq> CHR ''[''
      \<or> (vsnprintf_buffer line ! 1 \<noteq> CHR ''E'' \<and> vsnprintf_buffer line ! 1 \<noteq> CHR ''W''))
   \<longleftrightarrow> \<not> passes_level_check line"
proof (cases line)
  case Nil
  then show ?thesis by (simp add: vsnprintf_buffer_def passes_level_check_def)
next
  case (Cons c0 rest)
  show ?thesis
  proof (cases rest)
    case Nil
    with Cons show ?thesis by (simp add: vsnprintf_buffer_def passes_level_check_def)
  next
    case (Cons c1 rest')
    with \<open>line = c0 # rest\<close> show ?thesis
      by (auto simp: vsnprintf_buffer_def passes_level_check_def)
  qed
qed

lemma buffer_kept: "c_str (vsnprintf_buffer line) = kept line"
proof -
  let ?P = "\<lambda>c. c \<noteq> CHR 0x00"
  let ?t = "take 499 line"
  have pos: "0 < 501 - length ?t" by simp
  show ?thesis
  proof (cases "\<forall>c \<in> set ?t. ?P c")
    case True
    then have tw: "takeWhile ?P ?t = ?t"
      by (simp add: takeWhile_eq_all_conv)
    from True have "takeWhile ?P (?t @ replicate (501 - length ?t) (CHR 0x00))
                 = ?t @ takeWhile ?P (replicate (501 - length ?t) (CHR 0x00))"
      by (intro takeWhile_append2) blast
    also have "\<dots> = ?t"
      by (simp add: takeWhile_replicate)
    finally show ?thesis
      by (simp add: c_str_def kept_def vsnprintf_buffer_def tw)
  next
    case False
    then obtain c where "c \<in> set ?t" "\<not> ?P c" by blast
    then have "takeWhile ?P (?t @ replicate (501 - length ?t) (CHR 0x00)) = takeWhile ?P ?t"
      by (rule takeWhile_append1)
    then show ?thesis
      by (simp add: c_str_def kept_def vsnprintf_buffer_def)
  qed
qed

lemma Logv_eq:
  "Logv line s =
     (if \<not> passes_level_check line then s
      else let s1 = (if str_find (kept line) ''Error when reading'' = None
                     then LOG INFO (''RocksDB: '' @ kept line) s else s)
           in if str_find (kept line) ''Corruption:'' \<noteq> None then setCorrupted True s1 else s1)"
  unfolding Logv_def Let_def buffer_level buffer_kept by simp

lemma kept_whole: "length line \<le> 499 \<Longrightarrow> CHR 0x00 \<notin> set line \<Longrightarrow> kept line = line"
  by (auto simp: kept_def c_str_def takeWhile_eq_all_conv)

lemma kept_cut:
  "length pre = 499 \<Longrightarrow> CHR 0x00 \<notin> set pre \<Longrightarrow> kept (pre @ rest) = pre"
  by (auto simp: kept_def c_str_def takeWhile_eq_all_conv)

text \<open>
  C9, amended. The interceptor keeps of a line its first 499 bytes, up to the first
  zero byte among them. After the call the corruption flag is set if and only if it
  was set before or the line passes the level check and the kept part contains the
  marker "Corruption:"; so the interceptor never clears the flag. A line that fails
  the level check leaves the whole state as it is: nothing is forwarded and the flag
  keeps its value. A line that passes is forwarded at INFO severity unless its kept
  part contains "Error when reading". A line of at most 499 bytes with no zero byte is
  kept whole.
\<close>

theorem C9_interceptor_flag:
  "kRocksDBCorruptionIndicator (Logv line s) =
     (kRocksDBCorruptionIndicator s
      \<or> (passes_level_check line \<and> (\<exists>a b. kept line = a @ ''Corruption:'' @ b)))
   \<and> (\<not> passes_level_check line \<longrightarrow> Logv line s = s)
   \<and> hostlog (Logv line s) =
       hostlog s @ (if passes_level_check line \<and> str_find (kept line) ''Error when reading'' = None
                    then [(INFO, ''RocksDB: '' @ kept line)] else [])
   \<and> (length line \<le> 499 \<and> CHR 0x00 \<notin> set line \<longrightarrow> kept line = line)"
proof -
  have marker: "(str_find (kept line) ''Corruption:'' \<noteq> None)
                  = (\<exists>a b. kept line = a @ ''Corruption:'' @ b)"
    by (rule str_find_contains)
  have flag: "kRocksDBCorruptionIndicator (Logv line s) =
     (kRocksDBCorruptionIndicator s
      \<or> (passes_level_check line \<and> str_find (kept line) ''Corruption:'' \<noteq> None))"
    by (simp add: Logv_eq Let_def setCorrupted_def LOG_def)
  have discard: "\<not> passes_level_check line \<longrightarrow> Logv line s = s"
    by (simp add: Logv_eq)
  have forward: "hostlog (Logv line s) =
       hostlog s @ (if passes_level_check line \<and> str_find (kept line) ''Error when reading'' = None
                    then [(INFO, ''RocksDB: '' @ kept line)] else [])"
    by (simp add: Logv_eq Let_def setCorrupted_def LOG_def)
  have whole: "length line \<le> 499 \<and> CHR 0x00 \<notin> set line \<longrightarrow> kept line = line"
    by (simp add: kept_whole)
  from flag discard forward whole show ?thesis
    unfolding marker by blast
qed

theorem C9_witness:
  "kRocksDBCorruptionIndicator (Logv ''[E] Corruption: bad block'' fresh) = True
   \<and> hostlog (Logv ''[E] Corruption: bad block'' fresh) = [(INFO, ''RocksDB: [E] Corruption: bad block'')]
   \<and> Logv ''[I] Corruption: bad block'' fresh = fresh
   \<and> kRocksDBCorruptionIndicator (Logv ''[W] slow write'' fresh) = False
   \<and> kRocksDBCorruptionIndicator (Logv ''[W] slow write'' (setCorrupted True fresh)) = True"
proof -
  have k: "kept ''[E] Corruption: bad block'' = ''[E] Corruption: bad block''"
    "kept ''[W] slow write'' = ''[W] slow write''"
    by (simp_all add: kept_whole)
  have m: "\<exists>a b. ''[E] Corruption: bad block'' = a @ ''Corruption:'' @ b"
    using str_find_contains [of "''[E] Corruption: bad block''" "''Corruption:''"]
    by (simp add: str_find_def)
  have n: "\<not> (\<exists>a b. ''[W] slow write'' = a @ ''Corruption:'' @ b)"
    using str_find_contains [of "''[W] slow write''" "''Corruption:''"]
    by (simp add: str_find_def)
  have e: "str_find ''[E] Corruption: bad block'' ''Error when reading'' = None"
    by (simp add: str_find_def)
  show ?thesis
    using C9_interceptor_flag [of "''[E] Corruption: bad block''" fresh]
      C9_interceptor_flag [of "''[I] Corruption: bad block''" fresh]
      C9_interceptor_flag [of "''[W] slow write''" fresh]
      C9_interceptor_flag [of "''[W] slow write''" "setCorrupted True fresh"]
      k m n e
    by (simp add: passes_level_check_def fresh_def setCorrupted_def)
qed

text \<open>
  The claim as stated decides by the line that is delivered. A line that passes the
  level check and contains the marker, but only past its first 499 bytes, leaves the
  flag unset.
\<close>

theorem C9_counterexample:
  "passes_level_check long_line
   \<and> str_find long_line ''Corruption:'' \<noteq> None
   \<and> kRocksDBCorruptionIndicator (Logv long_line fresh) = False"
proof -
  have lvl: "passes_level_check long_line"
    by (simp add: long_line_def passes_level_check_def)
  have "long_line = (''[E'' @ replicate 497 (CHR ''x'')) @ ''Corruption:'' @ []"
    by (simp add: long_line_def)
  then have "\<exists>a b. long_line = a @ ''Corruption:'' @ b" by blast
  with str_find_contains [of long_line "''Corruption:''"]
  have has: "str_find long_line ''Corruption:'' \<noteq> None"
    by blast
  have "kept ((''[E'' @ replicate 497 (CHR ''x'')) @ ''Corruption:'') = ''[E'' @ replicate 497 (CHR ''x'')"
    by (rule kept_cut) simp_all
  then have k: "kept long_line = ''[E'' @ replicate 497 (CHR ''x'')"
    by (simp add: long_line_def)
  have "CHR '':'' \<notin> set (kept long_line)"
    unfolding k by simp
  then have "\<not> (\<exists>a b. kept long_line = a @ ''Corruption:'' @ b)"
    by auto
  with str_find_contains [of "kept long_line" "''Corruption:''"]
  have "str_find (kept long_line) ''Corruption:'' = None"
    by blast
  then have "kRocksDBCorruptionIndicator (Logv long_line fresh) = False"
    using lvl by (simp add: Logv_eq Let_def LOG_def fresh_def)
  with lvl has show ?thesis by simp
qed

subsection \<open>Repair and close\<close>

lemmas repair_defs =
  repairDB_def repair_move_def movePath_def removePath_def pathExists_def LOG_def Let_def

lemma repairDB_frame:
  "path (repairDB s) = path s" "handles (repairDB s) = handles s" "db (repairDB s) = db s"
  "kRocksDBCorruptionIndicator (repairDB s) = kRocksDBCorruptionIndicator s"
  "read_only (repairDB s) = read_only s" "column_families (repairDB s) = column_families s"
  by (simp_all add: repair_defs)

lemma backup_path_differs: "p \<noteq> p @ ''.backup''"
  by simp

lemma repairDB_calls:
  "\<exists>ext. calls (repairDB s) = calls s @ CRepairDB # ext \<and> lifecycle ext = []
     \<and> (CMovePath (path s) (path s @ ''.backup'') True \<in> set ext \<longrightarrow>
          files (repairDB s) (path s) = None
        \<and> files (repairDB s) (path s @ ''.backup'') = files s (path s)
        \<and> files s (path s) \<noteq> None)"
proof -
  let ?b = "path s @ ''.backup''"
  let ?gone = "files s ?b \<noteq> None \<and> ?b \<notin> set (unremovable s)"
  let ?moves = "files s (path s) \<noteq> None \<and> path s \<notin> set (unmovable s)"
  consider (stuck) "files s ?b \<noteq> None" "?b \<in> set (unremovable s)"
    | (removed_moved) "?gone" "?moves"
    | (removed_unmoved) "?gone" "\<not> ?moves"
    | (absent_moved) "files s ?b = None" "?moves"
    | (absent_unmoved) "files s ?b = None" "\<not> ?moves"
    by blast
  then show ?thesis
  proof cases
    case stuck
    then have "calls (repairDB s) = calls s @ CRepairDB # [CRemovePath ?b False]"
      by (simp add: repair_defs)
    then show ?thesis by (simp add: lifecycle_def)
  next
    case removed_moved
    then have "calls (repairDB s) = calls s @ CRepairDB # [CRemovePath ?b True, CMovePath (path s) ?b True]"
      and "files (repairDB s) (path s) = None"
      and "files (repairDB s) ?b = files s (path s)" and "files s (path s) \<noteq> None"
      by (simp_all add: repair_defs)
    then show ?thesis by (simp add: lifecycle_def)
  next
    case removed_unmoved
    then have "calls (repairDB s) = calls s @ CRepairDB # [CRemovePath ?b True, CMovePath (path s) ?b False]"
      by (auto simp: repair_defs)
    then show ?thesis by (simp add: lifecycle_def)
  next
    case absent_moved
    then have "calls (repairDB s) = calls s @ CRepairDB # [CMovePath (path s) ?b True]"
      and "files (repairDB s) (path s) = None"
      and "files (repairDB s) ?b = files s (path s)" and "files s (path s) \<noteq> None"
      by (simp_all add: repair_defs)
    then show ?thesis by (simp add: lifecycle_def)
  next
    case absent_unmoved
    then have "calls (repairDB s) = calls s @ CRepairDB # [CMovePath (path s) ?b False]"
      by (auto simp: repair_defs)
    then show ?thesis by (simp add: lifecycle_def)
  qed
qed

lemma release_frame:
  "handles (release s) = []" "db (release s) = None" "path (release s) = path s"
  "kRocksDBCorruptionIndicator (release s) = kRocksDBCorruptionIndicator s"
  "calls (release s) = calls s" "read_only (release s) = read_only s"
  "column_families (release s) = column_families s"
  by (simp_all add: release_def Let_def split: option.splits)

lemma release_world:
  "unremovable (release s) = unremovable s" "unmovable (release s) = unmovable s"
  by (simp_all add: release_def Let_def split: option.splits)

lemma repairDB_stuck:
  assumes "files s (path s @ ''.backup'') \<noteq> None" and "path s @ ''.backup'' \<in> set (unremovable s)"
  shows "calls (repairDB s) = calls s @ [CRepairDB, CRemovePath (path s @ ''.backup'') False]"
    and "files (repairDB s) = files s"
  using assms by (simp_all add: repair_defs)

lemma repairDB_moved:
  assumes "\<not> (files s (path s @ ''.backup'') \<noteq> None \<and> path s @ ''.backup'' \<in> set (unremovable s))"
    and "files s (path s) \<noteq> None" and "path s \<notin> set (unmovable s)"
  shows "calls (repairDB s) =
           calls s @ CRepairDB
             # (if files s (path s @ ''.backup'') \<noteq> None
                then [CRemovePath (path s @ ''.backup'') True] else [])
             @ [CMovePath (path s) (path s @ ''.backup'') True]"
    and "files (repairDB s) = (files s)(path s := None, path s @ ''.backup'' := files s (path s))"
proof -
  show "calls (repairDB s) =
           calls s @ CRepairDB
             # (if files s (path s @ ''.backup'') \<noteq> None
                then [CRemovePath (path s @ ''.backup'') True] else [])
             @ [CMovePath (path s) (path s @ ''.backup'') True]"
    using assms by (auto simp: repair_defs)
  show "files (repairDB s) = (files s)(path s := None, path s @ ''.backup'' := files s (path s))"
  proof (cases "files s (path s @ ''.backup'') \<noteq> None")
    case True
    with assms have "files (repairDB s) =
        (files s)(path s @ ''.backup'' := None, path s := None, path s @ ''.backup'' := files s (path s))"
      by (auto simp: repair_defs)
    then show ?thesis by (simp add: fun_upd_twist)
  next
    case False
    with assms show ?thesis by (auto simp: repair_defs)
  qed
qed

lemma repairDB_unmoved:
  assumes "\<not> (files s (path s @ ''.backup'') \<noteq> None \<and> path s @ ''.backup'' \<in> set (unremovable s))"
    and "\<not> (files s (path s) \<noteq> None \<and> path s \<notin> set (unmovable s))"
  shows "calls (repairDB s) =
           calls s @ CRepairDB
             # (if files s (path s @ ''.backup'') \<noteq> None
                then [CRemovePath (path s @ ''.backup'') True] else [])
             @ [CMovePath (path s) (path s @ ''.backup'') False]"
    and "files (repairDB s) = (files s)(path s @ ''.backup'' := None)"
proof -
  show "calls (repairDB s) =
           calls s @ CRepairDB
             # (if files s (path s @ ''.backup'') \<noteq> None
                then [CRemovePath (path s @ ''.backup'') True] else [])
             @ [CMovePath (path s) (path s @ ''.backup'') False]"
    using assms by (auto simp: repair_defs)
  show "files (repairDB s) = (files s)(path s @ ''.backup'' := None)"
  proof (cases "files s (path s @ ''.backup'') \<noteq> None")
    case True
    with assms show ?thesis by (auto simp: repair_defs)
  next
    case False
    then have "(files s)(path s @ ''.backup'' := None) = files s" by auto
    with False assms show ?thesis by (auto simp: repair_defs)
  qed
qed

lemma close_flagged:
  "kRocksDBCorruptionIndicator s \<Longrightarrow>
   calls (close s) = calls (repairDB (release s)) \<and> files (close s) = files (repairDB (release s))"
  by (simp add: close_def Let_def isCorrupted_def release_frame setCorrupted_def)

text \<open>
  C7. \<open>close\<close> is a total function of the state: it has no failing outcome. After it the
  handle array is empty, the store handle is null and the corruption flag is false.
  If the flag was set, \<^verbatim>\<open>repairDB\<close> is entered once, after the release, and does one of
  three things, decided by the filesystem as the release leaves it. An older backup
  that cannot be removed stops it after the failed removal, the store directory
  staying where it is. Otherwise it removes the older backup, if there is one, and
  moves the store directory; when that move succeeds (the directory is there and can
  be moved) the directory is at the backup path and no longer at its own. When the
  move fails only the older backup is gone. If the flag was not set, \<open>close\<close> is the
  release alone: no repair, no filesystem call.
\<close>

theorem C7_close_releases_and_repairs:
  "handles (close s) = [] \<and> db (close s) = None \<and> \<not> kRocksDBCorruptionIndicator (close s)
   \<and> (kRocksDBCorruptionIndicator s \<longrightarrow>
        (if files (release s) (path s @ ''.backup'') \<noteq> None
            \<and> path s @ ''.backup'' \<in> set (unremovable s)
         then calls (close s) = calls s @ [CRepairDB, CRemovePath (path s @ ''.backup'') False]
            \<and> files (close s) = files (release s)
         else if files (release s) (path s) \<noteq> None \<and> path s \<notin> set (unmovable s)
         then calls (close s) =
                calls s @ CRepairDB
                  # (if files (release s) (path s @ ''.backup'') \<noteq> None
                     then [CRemovePath (path s @ ''.backup'') True] else [])
                  @ [CMovePath (path s) (path s @ ''.backup'') True]
            \<and> files (close s) =
                (files (release s))(path s := None,
                                    path s @ ''.backup'' := files (release s) (path s))
         else calls (close s) =
                calls s @ CRepairDB
                  # (if files (release s) (path s @ ''.backup'') \<noteq> None
                     then [CRemovePath (path s @ ''.backup'') True] else [])
                  @ [CMovePath (path s) (path s @ ''.backup'') False]
            \<and> files (close s) = (files (release s))(path s @ ''.backup'' := None)))
   \<and> (\<not> kRocksDBCorruptionIndicator s \<longrightarrow> close s = release s)"
proof -
  let ?r = "release s"
  let ?b = "path s @ ''.backup''"
  have released: "handles (close s) = [] \<and> db (close s) = None"
    by (rule close_closed)
  have cleared: "\<not> kRocksDBCorruptionIndicator (close s)"
    by (simp add: close_def Let_def isCorrupted_def setCorrupted_def)
  have plain: "close s = release s" if "\<not> kRocksDBCorruptionIndicator s"
    using that by (simp add: close_def Let_def isCorrupted_def release_frame)
  have stuck: "calls (close s) = calls s @ [CRepairDB, CRemovePath ?b False]
            \<and> files (close s) = files ?r"
    if "kRocksDBCorruptionIndicator s" and "files ?r ?b \<noteq> None \<and> ?b \<in> set (unremovable s)"
    using that close_flagged [of s] repairDB_stuck [of ?r]
    by (simp add: release_frame release_world)
  have moved: "calls (close s) =
                calls s @ CRepairDB
                  # (if files ?r ?b \<noteq> None then [CRemovePath ?b True] else [])
                  @ [CMovePath (path s) ?b True]
            \<and> files (close s) = (files ?r)(path s := None, ?b := files ?r (path s))"
    if "kRocksDBCorruptionIndicator s" and "\<not> (files ?r ?b \<noteq> None \<and> ?b \<in> set (unremovable s))"
      and "files ?r (path s) \<noteq> None \<and> path s \<notin> set (unmovable s)"
    using that close_flagged [of s] repairDB_moved [of ?r]
    by (simp add: release_frame release_world)
  have unmoved: "calls (close s) =
                calls s @ CRepairDB
                  # (if files ?r ?b \<noteq> None then [CRemovePath ?b True] else [])
                  @ [CMovePath (path s) ?b False]
            \<and> files (close s) = (files ?r)(?b := None)"
    if "kRocksDBCorruptionIndicator s" and "\<not> (files ?r ?b \<noteq> None \<and> ?b \<in> set (unremovable s))"
      and "\<not> (files ?r (path s) \<noteq> None \<and> path s \<notin> set (unmovable s))"
    using that close_flagged [of s] repairDB_unmoved [of ?r]
    by (simp add: release_frame release_world)
  have repaired:
    "if files ?r ?b \<noteq> None \<and> ?b \<in> set (unremovable s)
     then calls (close s) = calls s @ [CRepairDB, CRemovePath ?b False]
        \<and> files (close s) = files ?r
     else if files ?r (path s) \<noteq> None \<and> path s \<notin> set (unmovable s)
     then calls (close s) =
            calls s @ CRepairDB
              # (if files ?r ?b \<noteq> None then [CRemovePath ?b True] else [])
              @ [CMovePath (path s) ?b True]
        \<and> files (close s) = (files ?r)(path s := None, ?b := files ?r (path s))
     else calls (close s) =
            calls s @ CRepairDB
              # (if files ?r ?b \<noteq> None then [CRemovePath ?b True] else [])
              @ [CMovePath (path s) ?b False]
        \<and> files (close s) = (files ?r)(?b := None)"
    if flag: "kRocksDBCorruptionIndicator s"
  proof (cases "files ?r ?b \<noteq> None \<and> ?b \<in> set (unremovable s)")
    case True
    show ?thesis
      by (subst if_P [OF True]) (rule stuck [OF flag True])
  next
    case blocked: False
    show ?thesis
    proof (cases "files ?r (path s) \<noteq> None \<and> path s \<notin> set (unmovable s)")
      case True
      show ?thesis
        by (subst if_not_P [OF blocked], subst if_P [OF True]) (rule moved [OF flag blocked True])
    next
      case False
      show ?thesis
        by (subst if_not_P [OF blocked], subst if_not_P [OF False])
          (rule unmoved [OF flag blocked False])
    qed
  qed
  from released cleared plain repaired show ?thesis
    by blast
qed


lemma flagged_abcd_released:
  "kRocksDBCorruptionIndicator flagged_abcd" "path flagged_abcd = ''/db''"
  "unremovable flagged_abcd = []" "unmovable flagged_abcd = []"
  "files (release flagged_abcd) =
     (\<lambda>p. None)(''/db'' := Some \<lparr>img_verdict = rs_OK,
             img_content = [(''default'', []),
                            (''configurations'', [(''a'', ''1''), (''b'', ''2''), (''c'', ''3''), (''d'', ''4'')]),
                            (''queries'', []), (''events'', []), (''logs'', []), (''carves'', [])]\<rparr>)"
  by (simp_all add: flagged_abcd_def setCorrupted_def abcd_eq opened_eq release_def rocks_delete_def)

lemma flagged_abcd_blocked_released:
  "kRocksDBCorruptionIndicator flagged_abcd_blocked" "path flagged_abcd_blocked = ''/db''"
  "unremovable flagged_abcd_blocked = [''/db.backup'']"
  "files (release flagged_abcd_blocked) =
     (\<lambda>p. None)(''/db'' := Some \<lparr>img_verdict = rs_OK,
             img_content = [(''default'', []),
                            (''configurations'', [(''a'', ''1''), (''b'', ''2''), (''c'', ''3''), (''d'', ''4'')]),
                            (''queries'', []), (''events'', []), (''logs'', []), (''carves'', [])]\<rparr>,
        ''/db.backup'' := Some \<lparr>img_verdict = rs_OK, img_content = []\<rparr>)"
  by (simp_all add: flagged_abcd_blocked_def flagged_abcd_def setCorrupted_def abcd_eq opened_eq
      release_def rocks_delete_def fun_upd_twist)

theorem C7_witness:
  "handles (close flagged_abcd) = [] \<and> db (close flagged_abcd) = None
   \<and> kRocksDBCorruptionIndicator flagged_abcd = True
   \<and> kRocksDBCorruptionIndicator (close flagged_abcd) = False
   \<and> calls (close flagged_abcd) = calls flagged_abcd @ [CRepairDB, CMovePath ''/db'' ''/db.backup'' True]
   \<and> files (close flagged_abcd) ''/db'' = None
   \<and> files (close flagged_abcd) ''/db.backup'' =
       Some \<lparr>img_verdict = rs_OK,
             img_content = [(''default'', []),
                            (''configurations'', [(''a'', ''1''), (''b'', ''2''), (''c'', ''3''), (''d'', ''4'')]),
                            (''queries'', []), (''events'', []), (''logs'', []), (''carves'', [])]\<rparr>
   \<and> calls (close flagged_abcd_blocked) =
       calls flagged_abcd_blocked @ [CRepairDB, CRemovePath ''/db.backup'' False]
   \<and> files (close flagged_abcd_blocked) ''/db'' =
       Some \<lparr>img_verdict = rs_OK,
             img_content = [(''default'', []),
                            (''configurations'', [(''a'', ''1''), (''b'', ''2''), (''c'', ''3''), (''d'', ''4'')]),
                            (''queries'', []), (''events'', []), (''logs'', []), (''carves'', [])]\<rparr>
   \<and> close opened = release opened"
proof -
  have unflagged: "\<not> kRocksDBCorruptionIndicator opened"
    by (simp add: opened_eq)
  show ?thesis
    using C7_close_releases_and_repairs [of flagged_abcd] C7_close_releases_and_repairs [of flagged_abcd_blocked] C7_close_releases_and_repairs [of opened]
      flagged_abcd_released flagged_abcd_blocked_released unflagged
    by simp
qed

subsection \<open>The opens and repairs of one \<open>setUp\<close>\<close>

lemma LOG_frame:
  "calls (LOG sev msg s) = calls s" "files (LOG sev msg s) = files s" "path (LOG sev msg s) = path s"
  "kRocksDBCorruptionIndicator (LOG sev msg s) = kRocksDBCorruptionIndicator s"
  "unreadable (LOG sev msg s) = unreadable s"
  by (simp_all add: LOG_def)

lemma setUp_configure_frame:
  "calls (setUp_configure cfg s) = calls s" "files (setUp_configure cfg s) = files s"
  "path (setUp_configure cfg s) = make_preferred (FLAGS_database_path cfg)"
  "kRocksDBCorruptionIndicator (setUp_configure cfg s) = kRocksDBCorruptionIndicator s"
  "unreadable (setUp_configure cfg s) = unreadable s"
  by (simp_all add: setUp_configure_def Let_def LOG_def)

lemma setUp_permissions_state: "snd (setUp_permissions s) = s"
  by (simp add: setUp_permissions_def)

lemma DB_Open_frame:
  "calls (snd (DB_Open s)) = calls s @ [COpen (path s) (fst (DB_Open s))]"
  "path (snd (DB_Open s)) = path s"
  by (simp_all add: DB_Open_def split: prod.splits)

lemma close_calls:
  "\<exists>ext. calls (close s) = calls s @ ext
     \<and> lifecycle ext = (if kRocksDBCorruptionIndicator s then [CRepairDB] else [])"
proof (cases "kRocksDBCorruptionIndicator s")
  case False
  then have "calls (close s) = calls s @ []"
    by (simp add: close_def Let_def isCorrupted_def release_frame)
  with False show ?thesis by (simp add: lifecycle_def)
next
  case True
  then have "calls (close s) = calls (repairDB (release s))"
    by (simp add: close_def Let_def isCorrupted_def release_frame setCorrupted_def)
  with repairDB_calls [of "release s"] obtain ext where
    "calls (close s) = calls s @ CRepairDB # ext" "lifecycle ext = []"
    unfolding release_frame by auto
  then have "calls (close s) = calls s @ (CRepairDB # ext) \<and> lifecycle (CRepairDB # ext) = [CRepairDB]"
    by (simp add: lifecycle_def)
  with True show ?thesis by auto
qed

lemma close_path: "path (close s) = path s"
  by (simp add: close_def Let_def setCorrupted_def repairDB_frame release_frame)

lemma setUp_open_eq:
  "setUp_open s =
     (if IsCorruption (fst (DB_Open s)) then DB_Open (repairDB (snd (DB_Open s))) else DB_Open s)"
  by (cases "DB_Open s") (simp add: setUp_open_def)

lemma setUp_open_calls:
  "\<exists>ext st1 st2. calls (snd (setUp_open s)) = calls s @ ext
     \<and> lifecycle ext = COpen (path s) st1 # (if IsCorruption st1 then [CRepairDB, COpen (path s) st2] else [])"
proof (cases "IsCorruption (fst (DB_Open s))")
  case False
  then have "setUp_open s = DB_Open s"
    by (simp add: setUp_open_eq)
  then have "calls (snd (setUp_open s)) = calls s @ [COpen (path s) (fst (DB_Open s))]"
    by (simp add: DB_Open_frame)
  moreover have "lifecycle [COpen (path s) (fst (DB_Open s))] =
      COpen (path s) (fst (DB_Open s)) # (if IsCorruption (fst (DB_Open s)) then [CRepairDB, COpen (path s) rs_OK] else [])"
    using False by (simp add: lifecycle_def)
  ultimately show ?thesis by blast
next
  case True
  let ?s1 = "snd (DB_Open s)"
  let ?st1 = "fst (DB_Open s)"
  let ?st2 = "fst (DB_Open (repairDB ?s1))"
  from True have so: "setUp_open s = DB_Open (repairDB ?s1)"
    by (simp add: setUp_open_eq)
  from repairDB_calls [of ?s1] obtain e where
    e: "calls (repairDB ?s1) = calls ?s1 @ CRepairDB # e" "lifecycle e = []"
    by blast
  have "calls (snd (setUp_open s)) = calls s @ (COpen (path s) ?st1 # CRepairDB # e @ [COpen (path s) ?st2])"
    unfolding so by (simp add: DB_Open_frame repairDB_frame e)
  moreover have "lifecycle (COpen (path s) ?st1 # CRepairDB # e @ [COpen (path s) ?st2]) =
      COpen (path s) ?st1 # (if IsCorruption ?st1 then [CRepairDB, COpen (path s) ?st2] else [])"
    using True e(2) by (simp add: lifecycle_def)
  ultimately show ?thesis by blast
qed

lemma lifecycle_append: "lifecycle (xs @ ys) = lifecycle xs @ lifecycle ys"
  by (simp add: lifecycle_def)

lemma setUp_unreadable:
  assumes "files s (make_preferred (FLAGS_database_path cfg)) \<noteq> None"
    and "make_preferred (FLAGS_database_path cfg) \<in> set (unreadable s)"
  shows "setUp cfg s =
           (Status 1 (''Cannot read RocksDB path: '' @ make_preferred (FLAGS_database_path cfg)),
            setUp_configure cfg s)"
  using assms
  by (simp add: setUp_def Let_def pathExists_def isReadable_def setUp_configure_frame)

lemma setUp_calls_after_check:
  assumes "\<not> (files s (make_preferred (FLAGS_database_path cfg)) \<noteq> None
              \<and> make_preferred (FLAGS_database_path cfg) \<in> set (unreadable s))"
  shows "calls (snd (setUp cfg s)) =
           calls (snd (setUp_open (close (if \<not> kDBChecking cfg
                     then LOG VERBOSE (''Opening RocksDB handle: '' @ path (setUp_configure cfg s))
                            (setUp_configure cfg s)
                     else setUp_configure cfg s))))"
proof -
  let ?s4 = "if \<not> kDBChecking cfg
             then LOG VERBOSE (''Opening RocksDB handle: '' @ path (setUp_configure cfg s))
                    (setUp_configure cfg s)
             else setUp_configure cfg s"
  obtain st s5 where o: "setUp_open (close ?s4) = (st, s5)"
    by (cases "setUp_open (close ?s4)")
  have early: "\<not> (pathExists (setUp_configure cfg s) (path (setUp_configure cfg s))
                  \<and> \<not> isReadable (setUp_configure cfg s) (path (setUp_configure cfg s)))"
    using assms by (auto simp: pathExists_def isReadable_def setUp_configure_frame)
  have "calls (snd (setUp cfg s)) = calls s5"
    unfolding setUp_def Let_def using early o
    by (auto simp: setUp_permissions_state LOG_frame)
  with o show ?thesis by simp
qed

text \<open>
  C6, amended. A \<open>setUp\<close> that finds its path present and unreadable makes no open and no
  repair. Every other \<open>setUp\<close> makes, in this order: one repair if the corruption flag is
  set on entry (the repair of the \<open>close\<close> that precedes the open); the first open; and,
  if and only if that open reports corruption, one repair and one more open. So there
  are at most two opens, an open failure other than corruption is followed by no
  repair, and the repair procedure runs at most twice.
\<close>

theorem C6_setUp_opens_and_repairs:
  "\<exists>ext. calls (snd (setUp cfg s)) = calls s @ ext
     \<and> (if files s (make_preferred (FLAGS_database_path cfg)) \<noteq> None
            \<and> make_preferred (FLAGS_database_path cfg) \<in> set (unreadable s)
         then ext = []
         else (\<exists>st1 st2.
                 lifecycle ext =
                   (if kRocksDBCorruptionIndicator s then [CRepairDB] else [])
                   @ COpen (make_preferred (FLAGS_database_path cfg)) st1
                     # (if IsCorruption st1
                        then [CRepairDB, COpen (make_preferred (FLAGS_database_path cfg)) st2]
                        else [])))"
proof (cases "files s (make_preferred (FLAGS_database_path cfg)) \<noteq> None
            \<and> make_preferred (FLAGS_database_path cfg) \<in> set (unreadable s)")
  case True
  then have "calls (snd (setUp cfg s)) = calls s @ []"
    by (simp add: setUp_unreadable setUp_configure_frame)
  with True show ?thesis by auto
next
  case False
  let ?p = "make_preferred (FLAGS_database_path cfg)"
  let ?s4 = "if \<not> kDBChecking cfg
             then LOG VERBOSE (''Opening RocksDB handle: '' @ path (setUp_configure cfg s))
                    (setUp_configure cfg s)
             else setUp_configure cfg s"
  have s4: "calls ?s4 = calls s" "path ?s4 = ?p"
    "kRocksDBCorruptionIndicator ?s4 = kRocksDBCorruptionIndicator s"
    by (simp_all add: LOG_frame setUp_configure_frame)
  from close_calls [of ?s4] obtain e1 where
    e1: "calls (close ?s4) = calls s @ e1"
      "lifecycle e1 = (if kRocksDBCorruptionIndicator s then [CRepairDB] else [])"
    unfolding s4 by blast
  from setUp_open_calls [of "close ?s4"] obtain e2 st1 st2 where
    e2: "calls (snd (setUp_open (close ?s4))) = calls (close ?s4) @ e2"
      "lifecycle e2 = COpen ?p st1 # (if IsCorruption st1 then [CRepairDB, COpen ?p st2] else [])"
    unfolding close_path s4 by blast
  have "calls (snd (setUp cfg s)) = calls s @ (e1 @ e2)"
    using setUp_calls_after_check [OF False] e1(1) e2(1) by simp
  moreover have "lifecycle (e1 @ e2) =
                   (if kRocksDBCorruptionIndicator s then [CRepairDB] else [])
                   @ COpen ?p st1 # (if IsCorruption st1 then [CRepairDB, COpen ?p st2] else [])"
    by (simp only: lifecycle_append e1(2) e2(2))
  ultimately have "calls (snd (setUp cfg s)) = calls s @ (e1 @ e2)
     \<and> (\<exists>st1 st2. lifecycle (e1 @ e2) =
                   (if kRocksDBCorruptionIndicator s then [CRepairDB] else [])
                   @ COpen ?p st1 # (if IsCorruption st1 then [CRepairDB, COpen ?p st2] else []))"
    by blast
  with False show ?thesis
    by (intro exI [of _ "e1 @ e2"]) auto
qed

lemma corrupt_store_calls:
  "calls (snd (setUp cfg0 corrupt_store)) =
     [COpen ''/db'' corruption, CRepairDB, CMovePath ''/db'' ''/db.backup'' True, COpen ''/db'' rs_OK]"
  by (simp add: corrupt_store_def cfg0_def fresh_def lifecycle_defs corruption_def rs_OK_def)

theorem C6_witness:
  "lifecycle (calls (snd (setUp cfg0 corrupt_store))) =
     [COpen ''/db'' corruption, CRepairDB, COpen ''/db'' rs_OK]
   \<and> lifecycle (calls (snd (setUp cfg0 damaged))) = [COpen ''/db'' io_error]
   \<and> lifecycle (calls (snd (setUp cfg0 fresh))) = [COpen ''/db'' rs_OK]"
proof -
  have "calls (snd (setUp cfg0 damaged)) = [COpen ''/db'' io_error]"
    "calls (snd (setUp cfg0 fresh)) = [COpen ''/db'' rs_OK]"
    using degraded_eq opened_eq by (simp_all add: degraded_def opened_def)
  with corrupt_store_calls
    C6_setUp_opens_and_repairs [of cfg0 corrupt_store]
    C6_setUp_opens_and_repairs [of cfg0 damaged]
    C6_setUp_opens_and_repairs [of cfg0 fresh]
  show ?thesis
    by (simp add: lifecycle_def)
qed

text \<open>
  The claim as stated allows no second repair within one \<open>setUp\<close>. With the corruption
  flag set on entry and an older backup that cannot be removed, the \<open>close\<close> inside
  \<open>setUp\<close> runs the repair, which gives up; the first open then reports corruption and the
  repair runs a second time.
\<close>

theorem C6_counterexample:
  "kRocksDBCorruptionIndicator flagged
   \<and> lifecycle (calls (snd (setUp cfg0 flagged))) =
       [CRepairDB, COpen ''/db'' corruption, CRepairDB, COpen ''/db'' corruption]
   \<and> length (filter (\<lambda>c. c = CRepairDB) (calls (snd (setUp cfg0 flagged)))) = 2"
  by (simp add: flagged_def cfg0_def fresh_def lifecycle_defs corruption_def rs_OK_def
      lifecycle_def dec.simps)

subsection \<open>The handle a domain resolves to\<close>

lemma open_handles_nth: "i < length cfs \<Longrightarrow> open_handles cfs ! i = CFHandle i (cfs ! i)"
  by (simp add: open_handles_def nth_enumerate_eq)

lemma open_handles_length: "length (open_handles cfs) = length cfs"
  by (simp add: open_handles_def)

text \<open>
  Whatever the domain list: when the handles are those of an open with the default
  column family first and the domains after it, the name at index \<open>i\<close> of \<^verbatim>\<open>kDomains\<close>
  resolves to the handle of the descriptor at index \<open>i\<close>, which is the default column
  family for the first domain and the domain before it for every other one.
\<close>

lemma router_shifted:
  assumes "handles s = open_handles (kDefaultColumnFamilyName # kDomains cfg)"
    and "distinct (kDomains cfg)" and "i < length (kDomains cfg)"
  shows "getHandleForColumnFamily cfg s (kDomains cfg ! i) =
           Inr (Some (CFHandle i ((kDefaultColumnFamilyName # kDomains cfg) ! i)))"
  using assms
  by (simp add: getHandleForColumnFamily_def Let_def std_find_nth open_handles_length
      open_handles_nth)

text \<open>
  C1. After \<open>setUp\<close> has opened the store with the descriptors "default",
  "configurations", "queries", "events", "logs", "carves", every domain resolves to the
  handle of the column family before its own: "configurations" to the handle of
  "default", and so on; the handle of "carves" is returned for no domain.
\<close>

theorem C1_router_returns_preceding_partition:
  "column_families opened = [''default'', ''configurations'', ''queries'', ''events'', ''logs'', ''carves'']
   \<and> handles opened = open_handles (column_families opened)
   \<and> map (getHandleForColumnFamily cfg0 opened) (kDomains cfg0) =
       [Inr (Some (CFHandle 0 ''default'')), Inr (Some (CFHandle 1 ''configurations'')),
        Inr (Some (CFHandle 2 ''queries'')), Inr (Some (CFHandle 3 ''events'')),
        Inr (Some (CFHandle 4 ''logs''))]"
  by (simp add: opened_eq cfg0_def getHandleForColumnFamily_def open_handles_def)

end
